theory Spec2Isabelle
  imports Complex_Main "HOL-Library.Sublist"
begin

section \<open>Data model\<close>

text \<open>
  The engine of \<^verbatim>\<open>wisprtux/gui/transcription_engine.py\<close> (and its predecessor
  \<^verbatim>\<open>whisperflow/gui/transcription_engine.py\<close>) is embedded with explicit state passing.
  An exception is the text of its message; a frame is the byte string that
  \<^verbatim>\<open>stream.read(1024)\<close> returns.
\<close>

type_synonym exn = string
type_synonym frame = string

text \<open>The dictionary \<^verbatim>\<open>{"is_partial": b, "data": {"text": t}}\<close> handed to the transcript callback.\<close>

datatype transcript_event = TranscriptEvent (is_partial: bool) (data_text: string)

text \<open>The classes of exception that \<^verbatim>\<open>subprocess.run\<close> raises in the window tracker, as far
  as its handlers tell them apart: \<^verbatim>\<open>TimeoutExpired\<close> and \<^verbatim>\<open>CalledProcessError\<close> are
  \<^verbatim>\<open>SubprocessError\<close>s, \<^verbatim>\<open>FileNotFoundError\<close> is an \<^verbatim>\<open>OSError\<close>, and the last three
  (a NUL in an argument, a text or an output that the locale's encoding does not cover) are
  neither.\<close>

datatype py_error =
    TimeoutExpired
  | CalledProcessError
  | FileNotFoundError
  | OSError
  | ValueError
  | UnicodeEncodeError
  | UnicodeDecodeError

text \<open>
  What the engine's control code does to the outside, in program order: calls of its own
  \<^verbatim>\<open>_emit_status\<close>, \<^verbatim>\<open>_emit_transcript\<close> and \<^verbatim>\<open>_route_final_text\<close>, the call
  \<^verbatim>\<open>whisper.load_model(name, download_root).to(device)\<close>, the audio device calls of the
  \<^verbatim>\<open>finally\<close> block, the start of the worker thread, and (inside the window tracker) the
  subprocesses.
\<close>

datatype effect =
    EmitStatus string
  | EmitTranscript transcript_event
  | RouteFinalText string
  | WhisperLoad string "string option" string
  | StreamStop
  | StreamClose
  | AudioTerminate
  | ThreadStart nat
  | Run "string list"
  | RunInput "string list" string
  | StatusCallback nat string
  | TranscriptCallback nat transcript_event

text \<open>The local variables of \<^verbatim>\<open>_worker_loop\<close>; \<open>cycles_run\<close> counts the calls of
  \<^verbatim>\<open>self._model.transcribe\<close> made so far and indexes the inference results.\<close>

record loop_state =
  window :: "frame list"
  chunk_count :: nat
  prev_text :: string
  stable_cycles :: nat
  cycles_run :: nat

section \<open>The worker loop of wisprtux\<close>

text \<open>\<^verbatim>\<open>transcribe_interval = 0.5\<close>;
  \<^verbatim>\<open>chunks_per_interval = int(16000 * transcribe_interval / 1024)\<close>. All three numbers
  and both intermediate results are binary fractions that a double holds exactly, so the
  rationals compute what the floats do. \<^verbatim>\<open>int()\<close> truncates towards zero.\<close>

definition transcribe_interval :: rat where
  "transcribe_interval = 1 / 2"

definition py_int :: "rat \<Rightarrow> int" where
  "py_int x = (if 0 \<le> x then \<lfloor>x\<rfloor> else \<lceil>x\<rceil>)"

definition chunks_per_interval :: nat where
  "chunks_per_interval = nat (py_int (16000 * transcribe_interval / 1024))"

definition initial_state :: loop_state where
  "initial_state = \<lparr>window = [], chunk_count = 0, prev_text = [], stable_cycles = 0, cycles_run = 0\<rparr>"

text \<open>Lines 257-275: the classification of one cycle's text.\<close>

definition classify :: "string \<Rightarrow> loop_state \<Rightarrow> loop_state \<times> effect list" where
  "classify txt s =
     (if txt \<noteq> [] then
        (let s1 = (if txt = prev_text s
                   then s\<lparr>stable_cycles := stable_cycles s + 1\<rparr>
                   else s\<lparr>stable_cycles := 0, prev_text := txt\<rparr>)
         in if 2 \<le> stable_cycles s1
            then (s1\<lparr>window := [], prev_text := [], stable_cycles := 0\<rparr>,
                  [EmitTranscript (TranscriptEvent False txt), RouteFinalText txt])
            else (s1, [EmitTranscript (TranscriptEvent True txt)]))
      else (s, []))"

text \<open>Lines 236-277: one inference cycle. \<open>infer k audio\<close> is the outcome of the \<open>k\<close>-th call
  \<^verbatim>\<open>self._model.transcribe(arr, ...)\<close> on the joined window: \<open>Inr t\<close> when it returns, \<open>t\<close>
  being \<^verbatim>\<open>result.get("text", "").strip()\<close>, and \<open>Inl e\<close> when it raises.\<close>

definition cycle :: "(nat \<Rightarrow> string \<Rightarrow> exn + string) \<Rightarrow> loop_state \<Rightarrow> loop_state \<times> effect list" where
  "cycle infer s =
     (let s0 = s\<lparr>chunk_count := 0\<rparr>;
          audio_data = concat (window s0);
          txt = (case infer (cycles_run s0) audio_data of Inr t \<Rightarrow> t | Inl e \<Rightarrow> []);
          (s1, cs) = classify txt (s0\<lparr>cycles_run := cycles_run s0 + 1\<rparr>)
      in (s1, [EmitStatus ''Transcribing...''] @ cs @ [EmitStatus ''Recording...'']))"

text \<open>Lines 227-277: one pass through the body of the \<^verbatim>\<open>while\<close> loop. \<open>rd\<close> is the outcome of
  \<^verbatim>\<open>stream.read(1024, exception_on_overflow=False)\<close>.\<close>

definition iteration ::
  "(nat \<Rightarrow> string \<Rightarrow> exn + string) \<Rightarrow> exn + frame \<Rightarrow> loop_state \<Rightarrow> loop_state \<times> effect list" where
  "iteration infer rd s =
     (case rd of
        Inl e \<Rightarrow> (s, [])
      | Inr data \<Rightarrow>
          (let s1 = s\<lparr>window := window s @ [data], chunk_count := chunk_count s + 1\<rparr>
           in if chunks_per_interval \<le> chunk_count s1 \<and> window s1 \<noteq> []
              then cycle infer s1
              else (s1, [])))"

text \<open>The \<^verbatim>\<open>while not self._stop_event.is_set()\<close> loop, driven by the frame reads that happen
  before the stop event is seen.\<close>

fun run_loop ::
  "(nat \<Rightarrow> string \<Rightarrow> exn + string) \<Rightarrow> (exn + frame) list \<Rightarrow> loop_state \<Rightarrow> loop_state \<times> effect list" where
  "run_loop infer [] s = (s, [])"
| "run_loop infer (rd # rds) s =
     (let (s1, c1) = iteration infer rd s;
          (s2, c2) = run_loop infer rds s1
      in (s2, c1 @ c2))"

section \<open>Reading the effects\<close>

fun transcript_of :: "effect \<Rightarrow> transcript_event list" where
  "transcript_of (EmitTranscript ev) = [ev]"
| "transcript_of _ = []"

definition transcripts :: "effect list \<Rightarrow> transcript_event list" where
  "transcripts cs = concat (map transcript_of cs)"

fun is_final :: "effect \<Rightarrow> bool" where
  "is_final (EmitTranscript ev) = (\<not> is_partial ev)"
| "is_final _ = False"

definition emits_final :: "effect list \<Rightarrow> bool" where
  "emits_final cs = list_ex is_final cs"

text \<open>The classification step fed with the texts of successive cycles; the effects are kept
  cycle by cycle.\<close>

fun run_cycles :: "string list \<Rightarrow> loop_state \<Rightarrow> loop_state \<times> effect list list" where
  "run_cycles [] s = (s, [])"
| "run_cycles (t # ts) s =
     (let (s1, c1) = classify t s;
          (s2, cs) = run_cycles ts s1
      in (s2, c1 # cs))"

text \<open>The cycles (counted from 1) that emit a final event.\<close>

definition final_cycles :: "string list \<Rightarrow> nat list" where
  "final_cycles ts =
     map (\<lambda>i. i + 1)
       (filter (\<lambda>i. emits_final (snd (run_cycles ts initial_state) ! i)) [0 ..< length ts])"

text \<open>A reference reading of "three non-empty cycles in a row": \<open>seg\<close> holds the non-empty
  texts seen since the last final event (or since the start); empty texts are passed over.\<close>

definition ends_with_two :: "string \<Rightarrow> string list \<Rightarrow> bool" where
  "ends_with_two t seg = (case rev seg of a # b # _ \<Rightarrow> a = t \<and> b = t | _ \<Rightarrow> False)"

fun three_in_a_row :: "string list \<Rightarrow> string list \<Rightarrow> transcript_event list list" where
  "three_in_a_row seg [] = []"
| "three_in_a_row seg (t # ts) =
     (if t = [] then [] # three_in_a_row seg ts
      else if ends_with_two t seg then [TranscriptEvent False t] # three_in_a_row [] ts
      else [TranscriptEvent True t] # three_in_a_row (seg @ [t]) ts)"

text \<open>How the loop's \<open>prev_text\<close> and \<open>stable_cycles\<close> follow the segment \<open>seg\<close> of the
  reference reading.\<close>

definition tracks :: "loop_state \<Rightarrow> string list \<Rightarrow> bool" where
  "tracks s seg =
     (prev_text s = (if seg = [] then [] else last seg) \<and>
      stable_cycles s = (if seg \<noteq> [] \<and> ends_with_two (last seg) seg then 1 else 0))"

text \<open>What the loop may emit while it absorbs failures: the two progress statuses, and
  transcript events and routed texts whose text is a non-empty result that some inference
  call returned.\<close>

definition absorbed :: "(nat \<Rightarrow> string \<Rightarrow> exn + string) \<Rightarrow> effect \<Rightarrow> bool" where
  "absorbed infer c =
     (c = EmitStatus ''Transcribing...'' \<or> c = EmitStatus ''Recording...'' \<or>
      (\<exists>b t k a. t \<noteq> [] \<and> infer k a = Inr t \<and>
         (c = EmitTranscript (TranscriptEvent b t) \<or> c = RouteFinalText t)))"

text \<open>Two inference behaviours used as concrete inputs: every call returns "hi"; the first
  call raises and the later ones return "hi".\<close>

definition always_hi :: "nat \<Rightarrow> string \<Rightarrow> exn + string" where
  "always_hi k a = Inr ''hi''"

definition raises_once :: "nat \<Rightarrow> string \<Rightarrow> exn + string" where
  "raises_once k a = (if k = 0 then Inl ''CUDA out of memory'' else Inr ''hi'')"

section \<open>The engine\<close>

text \<open>
  \<^verbatim>\<open>TranscriptionEngine.__init__\<close>. The fields of the whisperflow engine come first;
  wisprtux adds the two output flags and the window captured when recording starts. A
  callback and a thread are a handle; the queue is its contents; the stop event is whether
  it is set; a loaded model records what it was loaded from and the device it was moved to.
\<close>

datatype whisper_model = WhisperModel (loaded_from: string) (on_device: string)

record window_snapshot =
  window_id :: "string option"
  window_name :: "string option"
  window_pid :: "string option"

record whisperflow_engine =
  model :: "whisper_model option"
  model_name :: string
  offline :: bool
  recording :: bool
  status_cb :: "nat option"
  transcript_cb :: "nat option"
  audio_queue :: "frame list"
  stop_event :: bool
  worker_thread :: "nat option"

record engine = whisperflow_engine +
  auto_clipboard :: bool
  auto_type :: bool
  origin_window :: "window_snapshot option"

definition new_engine :: engine where
  "new_engine =
     \<lparr>model = None, model_name = ''tiny.en'', offline = False, recording = False,
      status_cb = None, transcript_cb = None, audio_queue = [], stop_event = False,
      worker_thread = None, auto_clipboard = False, auto_type = False, origin_window = None\<rparr>"

text \<open>
  What the machine answers when the engine asks: the directory two levels above the module
  file, \<^verbatim>\<open>torch.cuda.is_available()\<close>, \<^verbatim>\<open>os.path.exists\<close>, whether
  \<^verbatim>\<open>whisper.load_model(name, download_root=root).to(device)\<close> raises (\<open>Some\<close> the message) or
  returns, whether \<^verbatim>\<open>import pyaudio\<close> succeeds, whether \<^verbatim>\<open>audio.open\<close> raises, and for
  the window tracker: how \<^verbatim>\<open>subprocess.run(args, capture_output=True, ...)\<close> ends (the
  exception it raises, or the return code and the stripped standard output),
  \<^verbatim>\<open>shutil.which(cmd) is not None\<close>, and the exception that
  \<^verbatim>\<open>subprocess.run(cmd, input=text, check=True, ...)\<close> raises, if any.
\<close>

record host =
  package_dir :: string
  cuda_is_available :: bool
  path_exists :: "string \<Rightarrow> bool"
  whisper_load_model :: "string \<Rightarrow> string option \<Rightarrow> string \<Rightarrow> exn option"
  import_pyaudio :: bool
  audio_open :: "exn option"
  subprocess_run :: "string list \<Rightarrow> py_error + (int \<times> string)"
  which :: "string \<Rightarrow> bool"
  run_with_input :: "string list \<Rightarrow> string \<Rightarrow> py_error option"

subsection \<open>Callbacks and settings\<close>

definition connect_status :: "nat \<Rightarrow> 'a whisperflow_engine_scheme \<Rightarrow> 'a whisperflow_engine_scheme" where
  "connect_status callback e = e\<lparr>status_cb := Some callback\<rparr>"

definition connect_transcript :: "nat \<Rightarrow> 'a whisperflow_engine_scheme \<Rightarrow> 'a whisperflow_engine_scheme" where
  "connect_transcript callback e = e\<lparr>transcript_cb := Some callback\<rparr>"

definition emit_status :: "'a whisperflow_engine_scheme \<Rightarrow> string \<Rightarrow> effect list" where
  "emit_status e txt = (case status_cb e of Some cb \<Rightarrow> [StatusCallback cb txt] | None \<Rightarrow> [])"

definition emit_transcript :: "'a whisperflow_engine_scheme \<Rightarrow> transcript_event \<Rightarrow> effect list" where
  "emit_transcript e result =
     (case transcript_cb e of Some cb \<Rightarrow> [TranscriptCallback cb result] | None \<Rightarrow> [])"

definition set_model :: "string \<Rightarrow> 'a whisperflow_engine_scheme \<Rightarrow> 'a whisperflow_engine_scheme" where
  "set_model name e = e\<lparr>model_name := name, model := None\<rparr>"

definition set_offline :: "bool \<Rightarrow> 'a whisperflow_engine_scheme \<Rightarrow> 'a whisperflow_engine_scheme" where
  "set_offline b e = e\<lparr>offline := b\<rparr>"

definition set_auto_clipboard :: "bool \<Rightarrow> engine \<Rightarrow> engine" where
  "set_auto_clipboard enabled e = e\<lparr>auto_clipboard := enabled\<rparr>"

definition set_auto_type :: "bool \<Rightarrow> engine \<Rightarrow> engine" where
  "set_auto_type enabled e = e\<lparr>auto_type := enabled\<rparr>"

subsection \<open>Model loading\<close>

definition MODEL_FILES :: "(string \<times> string) list" where
  "MODEL_FILES =
     [(''tiny.en'', ''tiny.en.pt''), (''base.en'', ''base.en.pt''), (''small.en'', ''small.en.pt''),
      (''medium.en'', ''medium.en.pt''), (''large'', ''large.pt'')]"

text \<open>\<^verbatim>\<open>d.get(k, default)\<close>, \<^verbatim>\<open>os.path.join(a, b)\<close> on POSIX, and \<^verbatim>\<open>s.replace(old, new)\<close>.\<close>

definition dict_get :: "('k \<times> 'v) list \<Rightarrow> 'k \<Rightarrow> 'v \<Rightarrow> 'v" where
  "dict_get d k dflt = (case map_of d k of Some v \<Rightarrow> v | None \<Rightarrow> dflt)"

definition path_join :: "string \<Rightarrow> string \<Rightarrow> string" where
  "path_join a b =
     (if b \<noteq> [] \<and> hd b = CHR ''/'' then b
      else if a = [] \<or> last a = CHR ''/'' then a @ b
      else a @ ''/'' @ b)"

function str_replace :: "string \<Rightarrow> string \<Rightarrow> string \<Rightarrow> string" where
  "str_replace old new s =
     (if old = [] then new @ concat (map (\<lambda>c. c # new) s)
      else if s = [] then []
      else if take (length old) s = old then new @ str_replace old new (drop (length old) s)
      else hd s # str_replace old new (tl s))"
  by pat_completeness auto
termination
  by (relation "measure (\<lambda>(old, new, s). length s)") auto

declare str_replace.simps [simp del]

definition MODELS_DIR :: "host \<Rightarrow> string" where
  "MODELS_DIR h = path_join (package_dir h) ''models''"

text \<open>
  \<^verbatim>\<open>_load_model\<close>, the same text in both engines: the result, the engine afterwards and the
  calls made. \<^verbatim>\<open>import torch\<close> cannot fail here: the module has imported \<^verbatim>\<open>whisper\<close>, which
  imports \<^verbatim>\<open>torch\<close>, before the class exists.
\<close>

definition load_model ::
  "host \<Rightarrow> 'a whisperflow_engine_scheme \<Rightarrow> bool \<times> 'a whisperflow_engine_scheme \<times> effect list" where
  "load_model h e =
     (let file_name = dict_get MODEL_FILES (model_name e) ''tiny.en.pt'';
          local_path = path_join (MODELS_DIR h) file_name;
          device = (if cuda_is_available h then ''cuda'' else ''cpu'')
      in if path_exists h local_path then
           (case whisper_load_model h local_path None device of
              None \<Rightarrow>
                (True, e\<lparr>model := Some (WhisperModel local_path device)\<rparr>,
                 [EmitStatus ''Loading model...'', WhisperLoad local_path None device,
                  EmitStatus ''Model loaded''])
            | Some exc \<Rightarrow>
                (False, e,
                 [EmitStatus ''Loading model...'', WhisperLoad local_path None device,
                  EmitStatus (''Model load failed: '' @ exc)]))
         else if \<not> offline e then
           (let model_size = str_replace ''.en'' [] (model_name e)
            in case whisper_load_model h model_size (Some (MODELS_DIR h)) device of
                 None \<Rightarrow>
                   (True, e\<lparr>model := Some (WhisperModel model_size device)\<rparr>,
                    [EmitStatus ''Loading model...'',
                     WhisperLoad model_size (Some (MODELS_DIR h)) device,
                     EmitStatus ''Model loaded''])
               | Some exc \<Rightarrow>
                   (False, e,
                    [EmitStatus ''Loading model...'',
                     WhisperLoad model_size (Some (MODELS_DIR h)) device,
                     EmitStatus (''Model load failed: '' @ exc)]))
         else (False, e, [EmitStatus ''Loading model...'', EmitStatus ''Model not available offline'']))"

subsection \<open>The window tracker\<close>

text \<open>
  \<^verbatim>\<open>whisperflow/gui/window_tracker.py\<close>, which the wisprtux engine imports under the same
  names from its own package. \<^verbatim>\<open>_run\<close> is \<open>run_cmd\<close>. Each function gives how it ends, with
  its result (\<open>Inr\<close>) or with an exception that nothing in it catches (\<open>Inl\<close>), and the calls
  of \<^verbatim>\<open>subprocess.run\<close> it made until then. \<^verbatim>\<open>_run\<close> catches
  \<^verbatim>\<open>(subprocess.TimeoutExpired, FileNotFoundError, OSError)\<close> and \<^verbatim>\<open>set_clipboard\<close> catches
  \<^verbatim>\<open>(subprocess.SubprocessError, OSError)\<close>; any other exception goes on to the caller.
  \<^verbatim>\<open>not window_id\<close> holds for \<^verbatim>\<open>None\<close> and for the empty string. Time-outs and logging
  are left out.
\<close>

definition is_SubprocessError :: "py_error \<Rightarrow> bool" where
  "is_SubprocessError k = (k = TimeoutExpired \<or> k = CalledProcessError)"

definition is_OSError :: "py_error \<Rightarrow> bool" where
  "is_OSError k = (k = FileNotFoundError \<or> k = OSError)"

definition run_cmd :: "host \<Rightarrow> string list \<Rightarrow> (py_error + string option) \<times> effect list" where
  "run_cmd h args =
     ((case subprocess_run h args of
         Inr (returncode, out) \<Rightarrow> Inr (if returncode = 0 then Some out else None)
       | Inl exc \<Rightarrow> if exc = TimeoutExpired \<or> is_OSError exc then Inr None else Inl exc),
      [Run args])"

definition falsy :: "string option \<Rightarrow> bool" where
  "falsy w = (w = None \<or> w = Some [])"

definition get_active_window :: "host \<Rightarrow> (py_error + string option) \<times> effect list" where
  "get_active_window h = run_cmd h [''xdotool'', ''getactivewindow'']"

definition get_window_name :: "host \<Rightarrow> string option \<Rightarrow> (py_error + string option) \<times> effect list" where
  "get_window_name h wid =
     (if falsy wid then (Inr None, [])
      else run_cmd h [''xdotool'', ''getactivewindow'', ''getwindowname''])"

definition get_window_pid :: "host \<Rightarrow> string option \<Rightarrow> (py_error + string option) \<times> effect list" where
  "get_window_pid h wid =
     (if falsy wid then (Inr None, [])
      else run_cmd h [''xdotool'', ''getwindowpid'', the wid])"

definition focus_window :: "host \<Rightarrow> string option \<Rightarrow> (py_error + bool) \<times> effect list" where
  "focus_window h wid =
     (if falsy wid then (Inr False, [])
      else (case run_cmd h [''xdotool'', ''windowactivate'', ''--sync'', the wid] of
              (Inl exc, cs) \<Rightarrow> (Inl exc, cs)
            | (Inr result, cs) \<Rightarrow> (Inr (result \<noteq> None), cs)))"

text \<open>\<^verbatim>\<open>str(n)\<close> for a natural number.\<close>

fun str_nat :: "nat \<Rightarrow> string" where
  "str_nat n =
     (if n < 10 then [char_of (48 + n)]
      else str_nat (n div 10) @ [char_of (48 + n mod 10)])"

declare str_nat.simps [simp del]

definition type_text :: "host \<Rightarrow> string \<Rightarrow> string option \<Rightarrow> nat \<Rightarrow> (py_error + bool) \<times> effect list" where
  "type_text h txt wid delay_ms =
     (if txt = [] then (Inr False, [])
      else (let args = [''xdotool''] @ (if \<not> falsy wid then [''--window'', the wid] else []) @
                       [''type'', ''--clearmodifiers'', ''--delay'', str_nat delay_ms, ''--'', txt]
            in case run_cmd h args of
                 (Inl exc, cs) \<Rightarrow> (Inl exc, cs)
               | (Inr result, cs) \<Rightarrow> (Inr (result \<noteq> None), cs)))"

definition clipboard_commands :: "string list list" where
  "clipboard_commands =
     [[''xclip'', ''-selection'', ''clipboard''], [''xsel'', ''--clipboard'', ''--input'']]"

fun try_clipboard :: "host \<Rightarrow> string \<Rightarrow> string list list \<Rightarrow> (py_error + bool) \<times> effect list" where
  "try_clipboard h txt [] = (Inr False, [])"
| "try_clipboard h txt (cmd # cmds) =
     (if which h (hd cmd) then
        (case run_with_input h cmd txt of
           None \<Rightarrow> (Inr True, [RunInput cmd txt])
         | Some exc \<Rightarrow>
             if is_SubprocessError exc \<or> is_OSError exc
             then (let (r, cs) = try_clipboard h txt cmds in (r, RunInput cmd txt # cs))
             else (Inl exc, [RunInput cmd txt]))
      else try_clipboard h txt cmds)"

definition set_clipboard :: "host \<Rightarrow> string \<Rightarrow> (py_error + bool) \<times> effect list" where
  "set_clipboard h txt = try_clipboard h txt clipboard_commands"

text \<open>\<^verbatim>\<open>WindowSnapshot()\<close>, its \<^verbatim>\<open>valid\<close> property and its \<^verbatim>\<open>restore_and_type\<close>.\<close>

definition WindowSnapshot :: "host \<Rightarrow> (py_error + window_snapshot) \<times> effect list" where
  "WindowSnapshot h =
     (case get_active_window h of
        (Inl exc, c1) \<Rightarrow> (Inl exc, c1)
      | (Inr wid, c1) \<Rightarrow>
          (case get_window_name h wid of
             (Inl exc, c2) \<Rightarrow> (Inl exc, c1 @ c2)
           | (Inr name, c2) \<Rightarrow>
               (case get_window_pid h wid of
                  (Inl exc, c3) \<Rightarrow> (Inl exc, c1 @ c2 @ c3)
                | (Inr pid, c3) \<Rightarrow>
                    (Inr \<lparr>window_id = wid, window_name = name, window_pid = pid\<rparr>,
                     c1 @ c2 @ c3))))"

definition valid :: "window_snapshot \<Rightarrow> bool" where
  "valid w = (window_id w \<noteq> None)"

definition restore_and_type :: "host \<Rightarrow> window_snapshot \<Rightarrow> string \<Rightarrow> (py_error + bool) \<times> effect list" where
  "restore_and_type h w txt =
     (if \<not> valid w \<or> txt = [] then (Inr False, [])
      else (case focus_window h (window_id w) of
              (Inl exc, c1) \<Rightarrow> (Inl exc, c1)
            | (Inr focused, c1) \<Rightarrow>
                if \<not> focused then (Inr False, c1)
                else (let (typed, c2) = type_text h txt None 12 in (typed, c1 @ c2))))"

subsection \<open>Recording control and output routing of wisprtux\<close>

text \<open>\<^verbatim>\<open>start_recording\<close>; \<open>thread\<close> is the thread object it creates. When the window
  capture raises, nothing has been assigned yet. \<^verbatim>\<open>stop_recording\<close>.\<close>

definition start_recording :: "host \<Rightarrow> nat \<Rightarrow> engine \<Rightarrow> (py_error + engine) \<times> effect list" where
  "start_recording h thread e =
     (if recording e then (Inr e, [])
      else (case WindowSnapshot h of
              (Inl exc, cs) \<Rightarrow> (Inl exc, cs)
            | (Inr snapshot, cs) \<Rightarrow>
                (Inr (e\<lparr>origin_window := Some snapshot, recording := True, stop_event := False,
                        audio_queue := [], worker_thread := Some thread\<rparr>),
                 cs @ [ThreadStart thread])))"

definition stop_recording :: "'a whisperflow_engine_scheme \<Rightarrow> 'a whisperflow_engine_scheme \<times> effect list" where
  "stop_recording e =
     (if \<not> recording e then (e, [])
      else (e\<lparr>recording := False, stop_event := True\<rparr>, [EmitStatus ''Ready'']))"

text \<open>\<^verbatim>\<open>_route_final_text\<close>: how it ends and the calls of \<^verbatim>\<open>subprocess.run\<close> made. It has
  no \<^verbatim>\<open>try\<close>: an exception out of \<^verbatim>\<open>set_clipboard\<close> skips the typing block, and one out
  of \<^verbatim>\<open>focus_window\<close> skips \<^verbatim>\<open>type_text\<close>.\<close>

definition route_final_text :: "host \<Rightarrow> engine \<Rightarrow> string \<Rightarrow> (py_error + unit) \<times> effect list" where
  "route_final_text h e txt =
     (if txt = [] then (Inr (), [])
      else (case (if auto_clipboard e then set_clipboard h txt else (Inr False, [])) of
              (Inl exc, c1) \<Rightarrow> (Inl exc, c1)
            | (Inr copied, c1) \<Rightarrow>
                if auto_type e \<and> origin_window e \<noteq> None \<and> valid (the (origin_window e))
                then (case focus_window h (window_id (the (origin_window e))) of
                        (Inl exc, c2) \<Rightarrow> (Inl exc, c1 @ c2)
                      | (Inr focused, c2) \<Rightarrow>
                          (case type_text h txt None 12 of
                             (Inl exc, c3) \<Rightarrow> (Inl exc, c1 @ c2 @ c3)
                           | (Inr typed, c3) \<Rightarrow> (Inr (), c1 @ c2 @ c3)))
                else (Inr (), c1)))"

text \<open>What the calls of the engine's own methods come to, outside the engine: for a routing
  call, the calls of \<^verbatim>\<open>subprocess.run\<close> it makes, whether it returns or raises. \<open>observable\<close>
  reads a list of effects call by call; where a routing call raises, what the thread really
  does is the initial part that \<open>carry_out\<close> below gives.\<close>

definition perform :: "host \<Rightarrow> engine \<Rightarrow> effect \<Rightarrow> effect list" where
  "perform h e c =
     (case c of
        EmitStatus txt \<Rightarrow> emit_status e txt
      | EmitTranscript result \<Rightarrow> emit_transcript e result
      | RouteFinalText txt \<Rightarrow> snd (route_final_text h e txt)
      | _ \<Rightarrow> [c])"

definition observable :: "host \<Rightarrow> engine \<Rightarrow> effect list \<Rightarrow> effect list" where
  "observable h e cs = concat (map (perform h e) cs)"

fun is_run :: "effect \<Rightarrow> bool" where
  "is_run (Run args) = True"
| "is_run _ = False"

fun is_run_input :: "effect \<Rightarrow> bool" where
  "is_run_input (RunInput cmd txt) = True"
| "is_run_input _ = False"

subsection \<open>The worker of wisprtux\<close>

text \<open>
  The loop with the routing calls carried out. \<open>classify\<close> records the call
  \<^verbatim>\<open>self._route_final_text(text)\<close> of line 268 as \<open>RouteFinalText\<close>; here the call is made.
  When it returns, the pass goes on as \<open>iteration\<close> says. When it raises, nothing in the
  \<^verbatim>\<open>while\<close> loop catches the exception: lines 269-277 of that pass and all later passes
  do not happen, and the loop ends with the exception.
\<close>

fun carry_out :: "host \<Rightarrow> engine \<Rightarrow> effect list \<Rightarrow> py_error option \<times> effect list" where
  "carry_out h e [] = (None, [])"
| "carry_out h e (RouteFinalText txt # cs) =
     (case route_final_text h e txt of
        (Inl exc, rs) \<Rightarrow> (Some exc, rs)
      | (Inr u, rs) \<Rightarrow> (let (r, cs') = carry_out h e cs in (r, rs @ cs')))"
| "carry_out h e (c # cs) = (let (r, cs') = carry_out h e cs in (r, c # cs'))"

fun routed_loop ::
  "host \<Rightarrow> engine \<Rightarrow> (nat \<Rightarrow> string \<Rightarrow> exn + string) \<Rightarrow> (exn + frame) list \<Rightarrow> loop_state \<Rightarrow>
   py_error option \<times> effect list" where
  "routed_loop h e infer [] s = (None, [])"
| "routed_loop h e infer (rd # rds) s =
     (let (s1, c1) = iteration infer rd s
      in case carry_out h e c1 of
           (Some exc, c1') \<Rightarrow> (Some exc, c1')
         | (None, c1') \<Rightarrow> (let (r, c2) = routed_loop h e infer rds s1 in (r, c1' @ c2)))"

text \<open>\<^verbatim>\<open>_worker_loop\<close> as a whole: model loading, the audio device, the loop, and the
  \<^verbatim>\<open>finally\<close> block, which runs also when the loop ends with an exception. \<open>rds\<close> are the
  frame reads made before the stop event is seen. The result is the exception that ends the
  thread, if any, the engine afterwards, and the effects.\<close>

definition worker_loop ::
  "host \<Rightarrow> (nat \<Rightarrow> string \<Rightarrow> exn + string) \<Rightarrow> (exn + frame) list \<Rightarrow> engine \<Rightarrow>
   (py_error option \<times> engine) \<times> effect list" where
  "worker_loop h infer rds e =
     (let (loaded, e1, c1) = (if model e = None then load_model h e else (True, e, []))
      in if \<not> loaded then ((None, e1\<lparr>recording := False\<rparr>), c1)
         else if \<not> import_pyaudio h then
           ((None, e1\<lparr>recording := False\<rparr>),
            c1 @ [EmitStatus ''Recording...'', EmitStatus ''PyAudio not installed''])
         else (case audio_open h of
                 Some exc \<Rightarrow>
                   ((None, e1\<lparr>recording := False\<rparr>),
                    c1 @ [EmitStatus ''Recording...'', EmitStatus (''Audio error: '' @ exc),
                          AudioTerminate])
               | None \<Rightarrow>
                   ((fst (routed_loop h e1 infer rds initial_state), e1),
                    c1 @ [EmitStatus ''Recording...''] @
                    snd (routed_loop h e1 infer rds initial_state) @
                    [StreamStop, StreamClose, AudioTerminate, EmitStatus ''Ready''])))"

section \<open>The worker of whisperflow\<close>

text \<open>\<^verbatim>\<open>whisperflow/gui/transcription_engine.py\<close>, \<^verbatim>\<open>_worker_loop\<close>, cut at the same places:
  lines 193-211, 169-213, 160-213, the \<^verbatim>\<open>while\<close> loop, and the whole method. Its
  \<^verbatim>\<open>chunks_per_interval\<close> is computed by the same expression.\<close>

definition wf_classify :: "string \<Rightarrow> loop_state \<Rightarrow> loop_state \<times> effect list" where
  "wf_classify txt s =
     (if txt \<noteq> [] then
        (let s1 = (if txt = prev_text s
                   then s\<lparr>stable_cycles := stable_cycles s + 1\<rparr>
                   else s\<lparr>stable_cycles := 0, prev_text := txt\<rparr>)
         in if 2 \<le> stable_cycles s1
            then (s1\<lparr>window := [], prev_text := [], stable_cycles := 0\<rparr>,
                  [EmitTranscript (TranscriptEvent False txt)])
            else (s1, [EmitTranscript (TranscriptEvent True txt)]))
      else (s, []))"

definition wf_cycle :: "(nat \<Rightarrow> string \<Rightarrow> exn + string) \<Rightarrow> loop_state \<Rightarrow> loop_state \<times> effect list" where
  "wf_cycle infer s =
     (let s0 = s\<lparr>chunk_count := 0\<rparr>;
          audio_data = concat (window s0);
          txt = (case infer (cycles_run s0) audio_data of Inr t \<Rightarrow> t | Inl e \<Rightarrow> []);
          (s1, cs) = wf_classify txt (s0\<lparr>cycles_run := cycles_run s0 + 1\<rparr>)
      in (s1, [EmitStatus ''Transcribing...''] @ cs @ [EmitStatus ''Recording...'']))"

definition wf_iteration ::
  "(nat \<Rightarrow> string \<Rightarrow> exn + string) \<Rightarrow> exn + frame \<Rightarrow> loop_state \<Rightarrow> loop_state \<times> effect list" where
  "wf_iteration infer rd s =
     (case rd of
        Inl e \<Rightarrow> (s, [])
      | Inr data \<Rightarrow>
          (let s1 = s\<lparr>window := window s @ [data], chunk_count := chunk_count s + 1\<rparr>
           in if chunks_per_interval \<le> chunk_count s1 \<and> window s1 \<noteq> []
              then wf_cycle infer s1
              else (s1, [])))"

fun wf_run_loop ::
  "(nat \<Rightarrow> string \<Rightarrow> exn + string) \<Rightarrow> (exn + frame) list \<Rightarrow> loop_state \<Rightarrow> loop_state \<times> effect list" where
  "wf_run_loop infer [] s = (s, [])"
| "wf_run_loop infer (rd # rds) s =
     (let (s1, c1) = wf_iteration infer rd s;
          (s2, c2) = wf_run_loop infer rds s1
      in (s2, c1 @ c2))"

definition wf_worker_loop ::
  "host \<Rightarrow> (nat \<Rightarrow> string \<Rightarrow> exn + string) \<Rightarrow> (exn + frame) list \<Rightarrow>
   'a whisperflow_engine_scheme \<Rightarrow> 'a whisperflow_engine_scheme \<times> effect list" where
  "wf_worker_loop h infer rds e =
     (let (loaded, e1, c1) = (if model e = None then load_model h e else (True, e, []))
      in if \<not> loaded then (e1\<lparr>recording := False\<rparr>, c1)
         else if \<not> import_pyaudio h then
           (e1\<lparr>recording := False\<rparr>,
            c1 @ [EmitStatus ''Recording...'', EmitStatus ''PyAudio not installed''])
         else (case audio_open h of
                 Some exc \<Rightarrow>
                   (e1\<lparr>recording := False\<rparr>,
                    c1 @ [EmitStatus ''Recording...'', EmitStatus (''Audio error: '' @ exc),
                          AudioTerminate])
               | None \<Rightarrow>
                   (e1, c1 @ [EmitStatus ''Recording...''] @
                        snd (wf_run_loop infer rds initial_state) @
                        [StreamStop, StreamClose, AudioTerminate, EmitStatus ''Ready''])))"

text \<open>The effects of a whisperflow run with the routing call wisprtux adds put in after each
  final event.\<close>

fun with_routing :: "effect \<Rightarrow> effect list" where
  "with_routing (EmitTranscript ev) =
     (if is_partial ev then [EmitTranscript ev] else [EmitTranscript ev, RouteFinalText (data_text ev)])"
| "with_routing c = [c]"

fun is_route :: "effect \<Rightarrow> bool" where
  "is_route (RouteFinalText txt) = True"
| "is_route _ = False"

text \<open>An effect that is neither a routing call nor a call of \<^verbatim>\<open>subprocess.run\<close>.\<close>

definition plain :: "effect \<Rightarrow> bool" where
  "plain c = (\<not> is_route c \<and> \<not> is_run c \<and> \<not> is_run_input c)"

section \<open>Reading a model load\<close>

text \<open>The calls of \<^verbatim>\<open>whisper.load_model\<close> among some effects; the path and the device that
  \<^verbatim>\<open>_load_model\<close> computes first.\<close>

definition whisper_loads :: "effect list \<Rightarrow> effect list" where
  "whisper_loads cs = filter (\<lambda>c. case c of WhisperLoad n r d \<Rightarrow> True | _ \<Rightarrow> False) cs"

definition local_path :: "host \<Rightarrow> 'a whisperflow_engine_scheme \<Rightarrow> string" where
  "local_path h e = path_join (MODELS_DIR h) (dict_get MODEL_FILES (model_name e) ''tiny.en.pt'')"

definition device_of :: "host \<Rightarrow> string" where
  "device_of h = (if cuda_is_available h then ''cuda'' else ''cpu'')"

text \<open>A concrete machine: no GPU, only the tiny.en weights on disk, no network, xsel but no
  xclip, and an xdotool whose \<^verbatim>\<open>windowactivate\<close> times out. A concrete captured window.\<close>

definition laptop :: host where
  "laptop =
     \<lparr>package_dir = ''/opt/wisprtux'', cuda_is_available = False,
      path_exists = (\<lambda>p. p = ''/opt/wisprtux/models/tiny.en.pt''),
      whisper_load_model = (\<lambda>n r d. if r = None then None else Some ''Network is unreachable''),
      import_pyaudio = True, audio_open = None,
      subprocess_run = (\<lambda>args. if take 2 args = [''xdotool'', ''windowactivate'']
                                 then Inl TimeoutExpired else Inr (0, ''4194311'')),
      which = (\<lambda>c. c = ''xsel''),
      run_with_input = (\<lambda>cmd t. None)\<rparr>"

definition editor :: window_snapshot where
  "editor = \<lparr>window_id = Some ''4194311'', window_name = Some ''notes.txt'', window_pid = Some ''812''\<rparr>"

text \<open>The same machine with a working xdotool, on which the encoding that
  \<^verbatim>\<open>subprocess.run(cmd, input=text, text=True)\<close> applies to the input of a clipboard tool
  covers ASCII only: a text with any other character makes it raise \<^verbatim>\<open>UnicodeEncodeError\<close>.
  The text of a note sign (its three UTF-8 bytes), and an inference that returns it every
  time.\<close>

definition ascii_desk :: host where
  "ascii_desk =
     laptop\<lparr>subprocess_run := (\<lambda>args. Inr (0, ''4194311'')),
            run_with_input := (\<lambda>cmd t. if list_ex (\<lambda>c. 128 \<le> (of_char c :: nat)) t
                                         then Some UnicodeEncodeError else None)\<rparr>"

definition note_sign :: string where
  "note_sign = [CHR 0xE2, CHR 0x99, CHR 0xAA]"

definition always_note :: "nat \<Rightarrow> string \<Rightarrow> exn + string" where
  "always_note k a = Inr note_sign"

text \<open>An engine set to copy and to type what it hears into the captured window.\<close>

definition dictating :: engine where
  "dictating = new_engine\<lparr>auto_clipboard := True, auto_type := True, origin_window := Some editor\<rparr>"

section \<open>Reading the loop\<close>

text \<open>The text that a pass through the loop body classifies (none when the read fails or no
  cycle is due), and the texts classified over a run of passes.\<close>

definition cycle_text :: "(nat \<Rightarrow> string \<Rightarrow> exn + string) \<Rightarrow> exn + frame \<Rightarrow> loop_state \<Rightarrow> string list" where
  "cycle_text infer rd s =
     (case rd of
        Inl e \<Rightarrow> []
      | Inr d \<Rightarrow>
          if chunks_per_interval \<le> chunk_count s + 1
          then [case infer (cycles_run s) (concat (window s @ [d])) of Inr t \<Rightarrow> t | Inl e \<Rightarrow> []]
          else [])"

fun cycle_texts :: "(nat \<Rightarrow> string \<Rightarrow> exn + string) \<Rightarrow> (exn + frame) list \<Rightarrow> loop_state \<Rightarrow> string list" where
  "cycle_texts infer [] s = []"
| "cycle_texts infer (rd # rds) s =
     cycle_text infer rd s @ cycle_texts infer rds (fst (iteration infer rd s))"

text \<open>Two loop states with the same pending hypothesis.\<close>

definition same_hypothesis :: "loop_state \<Rightarrow> loop_state \<Rightarrow> bool" where
  "same_hypothesis s s' = (prev_text s = prev_text s' \<and> stable_cycles s = stable_cycles s')"

text \<open>What a listener may be called with while the loop absorbs failures: a progress status,
  or a transcript event whose text is a non-empty result that some inference call returned.\<close>

definition listener_sees_no_error :: "(nat \<Rightarrow> string \<Rightarrow> exn + string) \<Rightarrow> effect \<Rightarrow> bool" where
  "listener_sees_no_error infer x =
     (case x of
        StatusCallback cb t \<Rightarrow> t = ''Transcribing...'' \<or> t = ''Recording...''
      | TranscriptCallback cb ev \<Rightarrow> data_text ev \<noteq> [] \<and> (\<exists>k a. infer k a = Inr (data_text ev))
      | _ \<Rightarrow> True)"

section \<open>Properties\<close>

lemma chunks_per_interval_value: "chunks_per_interval = 7"
proof -
  have "\<lfloor>(125::rat) / 16\<rfloor> = 7"
    by (simp add: floor_eq_iff)
  then show ?thesis
    by (simp add: chunks_per_interval_def transcribe_interval_def py_int_def)
qed

subsection \<open>The cycle threshold\<close>

lemma classify_cycles_run: "cycles_run (fst (classify t s)) = cycles_run s"
  by (simp add: classify_def Let_def)

lemma classify_chunk_count: "chunk_count (fst (classify t s)) = chunk_count s"
  by (simp add: classify_def Let_def)

lemma cycle_counts:
  "cycles_run (fst (cycle infer s)) = cycles_run s + 1 \<and> chunk_count (fst (cycle infer s)) = 0"
  by (simp add: cycle_def Let_def split_beta classify_cycles_run classify_chunk_count)

lemma iteration_counts:
  assumes "chunk_count s < 7"
  shows "cycles_run (fst (iteration infer rd s)) =
           cycles_run s + (chunk_count s + (if isl rd then 0 else 1)) div 7 \<and>
         chunk_count (fst (iteration infer rd s)) = (chunk_count s + (if isl rd then 0 else 1)) mod 7"
proof (cases rd)
  case (Inl e)
  then show ?thesis using assms by (simp add: iteration_def)
next
  case (Inr d)
  show ?thesis
  proof (cases "chunk_count s = 6")
    case True
    then show ?thesis using Inr
      by (simp add: iteration_def Let_def chunks_per_interval_value cycle_counts)
  next
    case False
    then have "chunk_count s + 1 < 7" using assms by simp
    then show ?thesis using Inr
      by (simp add: iteration_def Let_def chunks_per_interval_value)
  qed
qed

lemma div7_split: "x div 7 + (x mod 7 + n) div 7 = (x + n) div (7::nat)"
proof -
  have e: "7 * (x div 7) + (x mod 7 + n) = x + n"
    by simp
  have "(7 * (x div 7) + (x mod 7 + n)) div 7 = x div 7 + (x mod 7 + n) div 7"
    by (rule div_mult_self4) simp
  then show ?thesis
    by (simp only: e)
qed

lemma mod7_split: "(x mod 7 + n) mod 7 = (x + n) mod (7::nat)"
  by (simp add: mod_add_left_eq)

lemma run_loop_counts:
  "chunk_count s < 7 \<Longrightarrow>
   cycles_run (fst (run_loop infer rds s)) =
     cycles_run s + (chunk_count s + length (filter (\<lambda>r. \<not> isl r) rds)) div 7 \<and>
   chunk_count (fst (run_loop infer rds s)) =
     (chunk_count s + length (filter (\<lambda>r. \<not> isl r) rds)) mod 7"
proof (induction rds arbitrary: s)
  case Nil then show ?case by simp
next
  case (Cons rd rds)
  let ?s1 = "fst (iteration infer rd s)"
  let ?k = "(if isl rd then 0 else 1) :: nat"
  let ?n = "length (filter (\<lambda>r. \<not> isl r) rds)"
  have it: "cycles_run ?s1 = cycles_run s + (chunk_count s + ?k) div 7"
           "chunk_count ?s1 = (chunk_count s + ?k) mod 7"
    using iteration_counts[OF Cons.prems, of infer rd] by auto
  have lt: "chunk_count ?s1 < 7" using it(2) by simp
  have run: "fst (run_loop infer (rd # rds) s) = fst (run_loop infer rds ?s1)"
    by (simp add: split_beta)
  have len: "length (filter (\<lambda>r. \<not> isl r) (rd # rds)) = ?k + ?n" by simp
  have a: "(chunk_count s + ?k) div 7 + ((chunk_count s + ?k) mod 7 + ?n) div 7 =
           (chunk_count s + ?k + ?n) div 7"
    by (rule div7_split)
  have b: "((chunk_count s + ?k) mod 7 + ?n) mod 7 = (chunk_count s + ?k + ?n) mod 7"
    by (rule mod7_split)
  have ih: "cycles_run (fst (run_loop infer rds ?s1)) = cycles_run ?s1 + (chunk_count ?s1 + ?n) div 7"
           "chunk_count (fst (run_loop infer rds ?s1)) = (chunk_count ?s1 + ?n) mod 7"
    using Cons.IH[OF lt] by blast+
  have "cycles_run (fst (run_loop infer (rd # rds) s)) =
        cycles_run s + ((chunk_count s + ?k) div 7 + ((chunk_count s + ?k) mod 7 + ?n) div 7)"
    by (simp only: run ih it add.assoc)
  moreover have "chunk_count (fst (run_loop infer (rd # rds) s)) =
        ((chunk_count s + ?k) mod 7 + ?n) mod 7"
    by (simp only: run ih it)
  ultimately show ?case
    by (simp only: len a b add.assoc)
qed

text \<open>
  Claim C2, as the code has it: the number of frames read since the last cycle that triggers
  an inference cycle is \<^verbatim>\<open>int(16000 * 0.5 / 1024)\<close>, the quotient rounded down, which is 7
  (448 ms of audio); so from the start of the loop a cycle has run once for every seven
  frames read successfully, whatever the reads that failed in between.
\<close>

theorem chunks_per_interval_rounds_down:
  "chunks_per_interval = nat \<lfloor>16000 * transcribe_interval / 1024\<rfloor> \<and>
   chunks_per_interval = 7 \<and>
   cycles_run (fst (run_loop infer rds initial_state)) =
     length (filter (\<lambda>r. \<not> isl r) rds) div 7"
proof -
  have "chunk_count initial_state < 7"
    by (simp add: initial_state_def)
  from run_loop_counts[OF this, of infer rds]
  have "cycles_run (fst (run_loop infer rds initial_state)) =
        length (filter (\<lambda>r. \<not> isl r) rds) div 7"
    by (simp add: initial_state_def)
  moreover have "chunks_per_interval = nat \<lfloor>16000 * transcribe_interval / 1024\<rfloor>"
    by (simp add: chunks_per_interval_def py_int_def transcribe_interval_def)
  ultimately show ?thesis
    using chunks_per_interval_value by simp
qed

text \<open>The threshold is not the quotient rounded up, which would be 8.\<close>

theorem chunks_per_interval_not_ceiling:
  "chunks_per_interval \<noteq> nat \<lceil>16000 * transcribe_interval / 1024\<rceil> \<and>
   nat \<lceil>16000 * transcribe_interval / 1024\<rceil> = 8 \<and> chunks_per_interval \<noteq> 8"
proof -
  have "\<lceil>(125::rat) / 16\<rceil> = 8"
    by (simp add: ceiling_eq_iff)
  then show ?thesis
    by (simp add: chunks_per_interval_value transcribe_interval_def)
qed

subsection \<open>When a cycle finalises\<close>

lemma ends_with_two_snoc: "ends_with_two t (seg @ [u]) = (u = t \<and> seg \<noteq> [] \<and> last seg = t)"
  by (cases seg rule: rev_cases) (auto simp: ends_with_two_def)

lemma ends_with_two_last: "ends_with_two t seg \<Longrightarrow> seg \<noteq> [] \<and> last seg = t"
  by (cases seg rule: rev_cases) (auto simp: ends_with_two_def split: list.splits)

lemma classify_tracks:
  assumes "tracks s seg"
  shows "classify t s = (s', cs) \<Longrightarrow>
     (t = [] \<longrightarrow> transcripts cs = [] \<and> tracks s' seg) \<and>
     (t \<noteq> [] \<and> ends_with_two t seg \<longrightarrow>
        transcripts cs = [TranscriptEvent False t] \<and> tracks s' []) \<and>
     (t \<noteq> [] \<and> \<not> ends_with_two t seg \<longrightarrow>
        transcripts cs = [TranscriptEvent True t] \<and> tracks s' (seg @ [t]))"
  using assms
  by (auto simp: classify_def tracks_def transcripts_def Let_def ends_with_two_snoc
       dest: ends_with_two_last split: if_splits)

lemma run_cycles_tracks:
  "tracks s seg \<Longrightarrow> map transcripts (snd (run_cycles ts s)) = three_in_a_row seg ts"
proof (induction ts arbitrary: s seg)
  case Nil then show ?case by simp
next
  case (Cons t ts)
  obtain s1 c1 where c: "classify t s = (s1, c1)" by (cases "classify t s")
  from classify_tracks[OF Cons.prems c] Cons.IH show ?case
    using c by (auto simp: split_beta)
qed

lemma classify_same_hypothesis:
  "same_hypothesis s s' \<Longrightarrow>
   transcripts (snd (classify t s)) = transcripts (snd (classify t s')) \<and>
   same_hypothesis (fst (classify t s)) (fst (classify t s'))"
  by (simp add: classify_def same_hypothesis_def Let_def transcripts_def)

lemma transcripts_append: "transcripts (xs @ ys) = transcripts xs @ transcripts ys"
  by (simp add: transcripts_def)

lemma iteration_as_classify:
  assumes "same_hypothesis s s'"
  shows "transcripts (snd (iteration infer rd s)) =
           concat (map transcripts (snd (run_cycles (cycle_text infer rd s) s'))) \<and>
         same_hypothesis (fst (iteration infer rd s)) (fst (run_cycles (cycle_text infer rd s) s'))"
proof (cases rd)
  case (Inl e)
  then show ?thesis using assms
    by (simp add: iteration_def cycle_text_def transcripts_def)
next
  case (Inr d)
  show ?thesis
  proof (cases "chunks_per_interval \<le> chunk_count s + 1")
    case False
    then show ?thesis using Inr assms
      by (simp add: iteration_def cycle_text_def transcripts_def Let_def same_hypothesis_def)
  next
    case True
    let ?t = "case infer (cycles_run s) (concat (window s @ [d])) of Inr t \<Rightarrow> t | Inl e \<Rightarrow> []"
    let ?s1 = "s\<lparr>window := window s @ [d], chunk_count := 0, cycles_run := cycles_run s + 1\<rparr>"
    have it: "iteration infer rd s =
        (fst (classify ?t ?s1), [EmitStatus ''Transcribing...''] @ snd (classify ?t ?s1) @ [EmitStatus ''Recording...''])"
      using True Inr by (simp add: iteration_def cycle_def Let_def split_beta)
    have ct: "cycle_text infer rd s = [?t]"
      using True Inr by (simp add: cycle_text_def)
    have sh: "same_hypothesis ?s1 s'"
      using assms by (simp add: same_hypothesis_def)
    from classify_same_hypothesis[OF sh, of ?t] show ?thesis
      unfolding it ct by (simp add: split_beta transcripts_append) (simp add: transcripts_def)
  qed
qed

lemma run_cycles_append:
  "run_cycles (xs @ ys) s =
     (fst (run_cycles ys (fst (run_cycles xs s))),
      snd (run_cycles xs s) @ snd (run_cycles ys (fst (run_cycles xs s))))"
  by (induction xs arbitrary: s) (simp_all add: split_beta)

lemma run_loop_as_run_cycles:
  "same_hypothesis s s' \<Longrightarrow>
   transcripts (snd (run_loop infer rds s)) =
     concat (map transcripts (snd (run_cycles (cycle_texts infer rds s) s')))"
proof (induction rds arbitrary: s s')
  case Nil then show ?case by (simp add: transcripts_def)
next
  case (Cons rd rds)
  let ?s1 = "fst (iteration infer rd s)"
  let ?s1' = "fst (run_cycles (cycle_text infer rd s) s')"
  from iteration_as_classify[OF Cons.prems, of infer rd]
  have a: "transcripts (snd (iteration infer rd s)) =
           concat (map transcripts (snd (run_cycles (cycle_text infer rd s) s')))"
    and b: "same_hypothesis ?s1 ?s1'" by simp_all
  from Cons.IH[OF b] a show ?case
    by (simp add: split_beta transcripts_append run_cycles_append)
qed

text \<open>
  Claim C1, as the code has it: fed with any sequence of cycle texts, the classification step
  emits a final event at a cycle exactly when that cycle's text is non-empty and equals the
  texts of the two non-empty cycles before it since the last final event (or the start); a
  cycle with empty text emits nothing and changes nothing, the repeat counter included. So
  for the cycles "", "hi", "", "hi", "hi", "hi" the one final event comes at the fifth cycle.
  The transcript events of the worker loop itself are those of the texts its cycles classify.
\<close>

theorem finals_after_three_non_empty_in_a_row:
  "map transcripts (snd (run_cycles ts initial_state)) = three_in_a_row [] ts \<and>
   classify [] s = (s, []) \<and>
   final_cycles ['''', ''hi'', '''', ''hi'', ''hi'', ''hi''] = [5] \<and>
   transcripts (snd (run_loop infer rds initial_state)) =
     concat (three_in_a_row [] (cycle_texts infer rds initial_state))"
proof -
  have t0: "tracks initial_state []"
    by (simp add: tracks_def initial_state_def)
  then have "map transcripts (snd (run_cycles ts initial_state)) = three_in_a_row [] ts"
    by (rule run_cycles_tracks)
  moreover have "transcripts (snd (run_loop infer rds initial_state)) =
     concat (three_in_a_row [] (cycle_texts infer rds initial_state))"
  proof -
    have "same_hypothesis initial_state initial_state"
      by (simp add: same_hypothesis_def)
    then have "transcripts (snd (run_loop infer rds initial_state)) =
      concat (map transcripts (snd (run_cycles (cycle_texts infer rds initial_state) initial_state)))"
      by (rule run_loop_as_run_cycles)
    then show ?thesis
      by (simp only: run_cycles_tracks[OF t0])
  qed
  moreover have "classify [] s = (s, [])"
    by (simp add: classify_def)
  moreover have "final_cycles ['''', ''hi'', '''', ''hi'', ''hi'', ''hi''] = [5]"
    by (simp add: final_cycles_def initial_state_def classify_def emits_final_def upt_rec)
  ultimately show ?thesis by simp
qed

text \<open>The claim as stated fails: the final event of that scenario is not at the sixth cycle,
  and an empty cycle leaves a repeat counter of 1 at 1.\<close>

theorem empty_cycle_keeps_repeat_counter:
  "final_cycles ['''', ''hi'', '''', ''hi'', ''hi'', ''hi''] \<noteq> [6] \<and>
   stable_cycles (fst (run_cycles [''hi'', ''hi'', ''''] initial_state)) = 1"
  by (simp add: final_cycles_def initial_state_def classify_def emits_final_def upt_rec)

subsection \<open>The window between final events\<close>

lemma emits_final_append [simp]: "emits_final (xs @ ys) = (emits_final xs \<or> emits_final ys)"
  by (simp add: emits_final_def)

lemma emits_final_Nil [simp]: "\<not> emits_final []"
  by (simp add: emits_final_def)

lemma emits_final_Cons [simp]: "emits_final (c # cs) = (is_final c \<or> emits_final cs)"
  by (simp add: emits_final_def)








lemma fresh_tracks: "prev_text s = [] \<Longrightarrow> stable_cycles s = 0 \<Longrightarrow> tracks s []"
  by (simp add: tracks_def)






subsection \<open>What the output routing starts\<close>

lemma str_nat_12: "str_nat 12 = ''12''"
  by code_simp

lemma run_cmd_calls: "snd (run_cmd h args) = [Run args]"
  by (simp add: run_cmd_def)

lemma focus_window_calls:
  "snd (focus_window h wid) =
     (if falsy wid then [] else [Run [''xdotool'', ''windowactivate'', ''--sync'', the wid]])"
proof (cases "falsy wid")
  case True
  then show ?thesis by (simp add: focus_window_def)
next
  case False
  obtain r cs where rc: "run_cmd h [''xdotool'', ''windowactivate'', ''--sync'', the wid] = (r, cs)"
    by (cases "run_cmd h [''xdotool'', ''windowactivate'', ''--sync'', the wid]")
  then have "cs = [Run [''xdotool'', ''windowactivate'', ''--sync'', the wid]]"
    using run_cmd_calls[of h "[''xdotool'', ''windowactivate'', ''--sync'', the wid]"] by simp
  then show ?thesis using False rc
    by (cases r) (simp_all add: focus_window_def)
qed

lemma type_text_calls:
  "snd (type_text h txt None 12) =
     (if txt = [] then []
      else [Run [''xdotool'', ''type'', ''--clearmodifiers'', ''--delay'', ''12'', ''--'', txt]])"
proof (cases "txt = []")
  case True
  then show ?thesis by (simp add: type_text_def)
next
  case False
  let ?args = "[''xdotool'', ''type'', ''--clearmodifiers'', ''--delay'', ''12'', ''--'', txt]"
  obtain r cs where rc: "run_cmd h ?args = (r, cs)"
    by (cases "run_cmd h ?args")
  then have "cs = [Run ?args]"
    using run_cmd_calls[of h ?args] by simp
  then show ?thesis using False rc
    by (cases r) (simp_all add: type_text_def falsy_def str_nat_12)
qed

lemma try_clipboard_calls:
  "filter is_run (snd (try_clipboard h txt cmds)) = [] \<and>
   filter is_run_input (snd (try_clipboard h txt cmds)) = snd (try_clipboard h txt cmds)"
  by (induction cmds) (simp_all add: split_beta split: option.splits)

lemma try_clipboard_host:
  "which h' = which h \<Longrightarrow> run_with_input h' = run_with_input h \<Longrightarrow>
   try_clipboard h' txt cmds = try_clipboard h txt cmds"
  by (induction cmds) (auto split: option.splits)

lemma set_clipboard_calls:
  "filter is_run (snd (set_clipboard h txt)) = [] \<and>
   filter is_run_input (snd (set_clipboard h txt)) = snd (set_clipboard h txt)"
  by (simp add: set_clipboard_def try_clipboard_calls)

lemma route_final_text_calls:
  "snd (route_final_text h e txt) =
     (if txt = [] then []
      else (if auto_clipboard e then snd (set_clipboard h txt) else []) @
           (if (auto_clipboard e \<and> isl (fst (set_clipboard h txt))) \<or>
               \<not> (auto_type e \<and> origin_window e \<noteq> None \<and> valid (the (origin_window e)))
            then []
            else snd (focus_window h (window_id (the (origin_window e)))) @
                 (if isl (fst (focus_window h (window_id (the (origin_window e))))) then []
                  else snd (type_text h txt None 12))))"
proof -
  obtain r1 c1 where a: "set_clipboard h txt = (r1, c1)"
    by (cases "set_clipboard h txt")
  obtain r2 c2 where b: "focus_window h (window_id (the (origin_window e))) = (r2, c2)"
    by (cases "focus_window h (window_id (the (origin_window e)))")
  obtain r3 c3 where c: "type_text h txt None 12 = (r3, c3)"
    by (cases "type_text h txt None 12")
  show ?thesis
    unfolding route_final_text_def a b c
    by (cases r1; cases r2; cases r3) auto
qed

lemma route_clipboard_calls:
  "filter is_run_input (snd (route_final_text h e txt)) =
     (if txt \<noteq> [] \<and> auto_clipboard e then snd (set_clipboard h txt) else [])"
  by (simp add: route_final_text_calls set_clipboard_calls focus_window_calls type_text_calls)

lemma route_typing_calls:
  "filter is_run (snd (route_final_text h e txt)) =
     (if txt \<noteq> [] \<and> auto_type e \<and> origin_window e \<noteq> None \<and> valid (the (origin_window e)) \<and>
         \<not> (auto_clipboard e \<and> isl (fst (set_clipboard h txt)))
      then snd (focus_window h (window_id (the (origin_window e)))) @
           (if isl (fst (focus_window h (window_id (the (origin_window e))))) then []
            else snd (type_text h txt None 12))
      else [])"
  by (simp add: route_final_text_calls set_clipboard_calls focus_window_calls type_text_calls)

lemma route_final_text_processes:
  "x \<in> set (snd (route_final_text h e t)) \<Longrightarrow> is_run x \<or> is_run_input x"
proof -
  assume x: "x \<in> set (snd (route_final_text h e t))"
  have c: "\<forall>y \<in> set (snd (set_clipboard h t)). is_run_input y"
    using set_clipboard_calls[of h t] by (metis filter_id_conv)
  show ?thesis using x c
    by (auto simp: route_final_text_calls focus_window_calls type_text_calls split: if_splits)
qed

lemma route_final_text_no_callback:
  "x \<in> set (snd (route_final_text h e t)) \<Longrightarrow> listener_sees_no_error infer x"
  using route_final_text_processes[of x h e t]
  by (cases x) (simp_all add: listener_sees_no_error_def)

lemma route_final_text_clipboard_raises:
  assumes "t \<noteq> []" "auto_clipboard e" "fst (set_clipboard h t) = Inl exc"
  shows "route_final_text h e t = (Inl exc, snd (set_clipboard h t))"
proof -
  obtain c1 where "set_clipboard h t = (Inl exc, c1)"
    using assms(3) by (cases "set_clipboard h t") simp
  then show ?thesis using assms(1,2)
    by (simp add: route_final_text_def)
qed

subsection \<open>Failures of a frame read and of an inference call\<close>

lemma classify_absorbed:
  "t = [] \<or> infer k a = Inr t \<Longrightarrow> c \<in> set (snd (classify t s)) \<Longrightarrow> absorbed infer c"
  by (auto simp: classify_def Let_def absorbed_def split: if_splits)

lemma cycle_absorbed: "c \<in> set (snd (cycle infer s)) \<Longrightarrow> absorbed infer c"
proof -
  assume c: "c \<in> set (snd (cycle infer s))"
  let ?k = "cycles_run s" and ?a = "concat (window s)"
  let ?t = "case infer ?k ?a of Inr t \<Rightarrow> t | Inl e \<Rightarrow> []"
  have ok: "?t = [] \<or> infer ?k ?a = Inr ?t"
    by (cases "infer ?k ?a") simp_all
  from c have "c = EmitStatus ''Transcribing...'' \<or> c = EmitStatus ''Recording...'' \<or>
      c \<in> set (snd (classify ?t (s\<lparr>chunk_count := 0, cycles_run := cycles_run s + 1\<rparr>)))"
    by (auto simp: cycle_def Let_def split_beta)
  then show ?thesis
    using classify_absorbed[where infer = infer and k = ?k and a = ?a, OF ok]
    by (auto simp: absorbed_def)
qed

lemma iteration_absorbed: "c \<in> set (snd (iteration infer rd s)) \<Longrightarrow> absorbed infer c"
  using cycle_absorbed
  by (cases rd) (auto simp: iteration_def Let_def split: if_splits)

lemma run_loop_absorbed: "c \<in> set (snd (run_loop infer rds s)) \<Longrightarrow> absorbed infer c"
proof (induction rds arbitrary: s)
  case Nil then show ?case by simp
next
  case (Cons rd rds)
  then show ?case
    using iteration_absorbed by (auto simp: split_beta)
qed

lemma cycle_inference_raises:
  assumes "infer (cycles_run s) (concat (window s)) = Inl e"
  shows "cycle infer s = (s\<lparr>chunk_count := 0, cycles_run := cycles_run s + 1\<rparr>,
           [EmitStatus ''Transcribing...'', EmitStatus ''Recording...''])"
  using assms by (simp add: cycle_def classify_def Let_def)

lemma cycle_empty_text:
  assumes "infer (cycles_run s) (concat (window s)) = Inr []"
  shows "cycle infer s = (s\<lparr>chunk_count := 0, cycles_run := cycles_run s + 1\<rparr>,
           [EmitStatus ''Transcribing...'', EmitStatus ''Recording...''])"
  using assms by (simp add: cycle_def classify_def Let_def)

lemma perform_absorbed:
  assumes "absorbed infer c" and x: "x \<in> set (perform h e c)"
  shows "listener_sees_no_error infer x"
proof -
  from assms(1) consider
      (status) "c = EmitStatus ''Transcribing...'' \<or> c = EmitStatus ''Recording...''"
    | (event) b t k a where "t \<noteq> []" "infer k a = Inr t" "c = EmitTranscript (TranscriptEvent b t)"
    | (route) t where "c = RouteFinalText t"
    by (auto simp: absorbed_def)
  then show ?thesis
  proof cases
    case status
    then show ?thesis using x
      by (auto simp: perform_def emit_status_def listener_sees_no_error_def split: option.splits)
  next
    case event
    have ex: "\<exists>k a. infer k a = Inr t"
      using event(2) by blast
    from x event(3) obtain cb where "x = TranscriptCallback cb (TranscriptEvent b t)"
      by (auto simp: perform_def emit_transcript_def split: option.splits)
    then show ?thesis
      using event(1) ex by (simp add: listener_sees_no_error_def)
  next
    case route
    then show ?thesis using x route_final_text_no_callback[of x h e t infer]
      by (simp add: perform_def)
  qed
qed

lemma observable_absorbed:
  "x \<in> set (observable h e (snd (run_loop infer rds s))) \<Longrightarrow> listener_sees_no_error infer x"
  using perform_absorbed run_loop_absorbed
  by (fastforce simp: observable_def)

text \<open>
  Claim C6: a frame read that raises leaves the state untouched, emits nothing, and the loop
  goes on with the next read; an inference call that raises makes the cycle behave as for the
  empty text: only the two progress statuses are emitted, no transcript event, the window
  keeps all its frames, and the loop goes on. Whatever the reads and inference calls do, the
  loop returns a state, and everything it emits is a progress status or carries a non-empty
  text that an inference call returned, never an error; so the callbacks of any engine's
  listeners are called with nothing else.
\<close>

theorem recoverable_errors_are_absorbed:
  "iteration infer (Inl e) s = (s, []) \<and>
   run_loop infer (Inl e # rds) s = run_loop infer rds s \<and>
   (infer (cycles_run s) (concat (window s)) = Inl e \<longrightarrow>
      cycle infer s = (s\<lparr>chunk_count := 0, cycles_run := cycles_run s + 1\<rparr>,
                       [EmitStatus ''Transcribing...'', EmitStatus ''Recording...'']) \<and>
      cycle infer s = cycle (\<lambda>k a. Inr []) s) \<and>
   (chunks_per_interval \<le> chunk_count s + 1 \<and>
    infer (cycles_run s) (concat (window s @ [d])) = Inl e \<longrightarrow>
      run_loop infer (Inr d # rds) s =
        (let s1 = s\<lparr>window := window s @ [d], chunk_count := 0, cycles_run := cycles_run s + 1\<rparr>;
             (s2, c2) = run_loop infer rds s1
         in (s2, [EmitStatus ''Transcribing...'', EmitStatus ''Recording...''] @ c2))) \<and>
   (\<forall>c \<in> set (snd (run_loop infer rds s)). absorbed infer c) \<and>
   (\<forall>x \<in> set (observable h eng (snd (run_loop infer rds s))). listener_sees_no_error infer x)"
proof (intro conjI impI ballI)
  show "iteration infer (Inl e) s = (s, [])"
    by (simp add: iteration_def)
  then show "run_loop infer (Inl e # rds) s = run_loop infer rds s"
    by simp
next
  assume r: "infer (cycles_run s) (concat (window s)) = Inl e"
  show "cycle infer s = (s\<lparr>chunk_count := 0, cycles_run := cycles_run s + 1\<rparr>,
                       [EmitStatus ''Transcribing...'', EmitStatus ''Recording...''])"
    by (rule cycle_inference_raises[where infer = infer and s = s, OF r])
  then show "cycle infer s = cycle (\<lambda>k a. Inr []) s"
    by (simp add: cycle_empty_text)
next
  assume a: "chunks_per_interval \<le> chunk_count s + 1 \<and>
    infer (cycles_run s) (concat (window s @ [d])) = Inl e"
  let ?s0 = "s\<lparr>window := window s @ [d], chunk_count := chunk_count s + 1\<rparr>"
  have "infer (cycles_run ?s0) (concat (window ?s0)) = Inl e"
    using a by simp
  from cycle_inference_raises[where infer = infer and s = ?s0, OF this]
  have "iteration infer (Inr d) s =
        (s\<lparr>window := window s @ [d], chunk_count := 0, cycles_run := cycles_run s + 1\<rparr>,
         [EmitStatus ''Transcribing...'', EmitStatus ''Recording...''])"
    using a by (simp add: iteration_def Let_def)
  then show "run_loop infer (Inr d # rds) s =
        (let s1 = s\<lparr>window := window s @ [d], chunk_count := 0, cycles_run := cycles_run s + 1\<rparr>;
             (s2, c2) = run_loop infer rds s1
         in (s2, [EmitStatus ''Transcribing...'', EmitStatus ''Recording...''] @ c2))"
    by (simp add: Let_def)
next
  fix c assume "c \<in> set (snd (run_loop infer rds s))"
  then show "absorbed infer c" by (rule run_loop_absorbed)
next
  fix x assume "x \<in> set (observable h eng (snd (run_loop infer rds s)))"
  then show "listener_sees_no_error infer x" by (rule observable_absorbed)
qed

theorem recoverable_errors_are_absorbed_witness:
  "chunks_per_interval \<le> chunk_count (initial_state\<lparr>chunk_count := 6\<rparr>) + 1 \<and>
   raises_once (cycles_run (initial_state\<lparr>chunk_count := 6\<rparr>))
     (concat (window (initial_state\<lparr>chunk_count := 6\<rparr>) @ [''cd''])) = Inl ''CUDA out of memory'' \<and>
   run_loop raises_once [Inr ''cd'', Inl ''Input overflowed''] (initial_state\<lparr>chunk_count := 6\<rparr>) =
     (\<lparr>window = [''cd''], chunk_count = 0, prev_text = [], stable_cycles = 0, cycles_run = 1\<rparr>,
      [EmitStatus ''Transcribing...'', EmitStatus ''Recording...'']) \<and>
   list_all (absorbed raises_once)
     (snd (run_loop raises_once [Inr ''cd'', Inl ''Input overflowed''] (initial_state\<lparr>chunk_count := 6\<rparr>))) \<and>
   observable laptop (new_engine\<lparr>status_cb := Some 1, transcript_cb := Some 2\<rparr>)
     (snd (run_loop raises_once [Inr ''cd'', Inl ''Input overflowed''] (initial_state\<lparr>chunk_count := 6\<rparr>))) =
     [StatusCallback 1 ''Transcribing...'', StatusCallback 1 ''Recording...''] \<and>
   list_all (listener_sees_no_error raises_once)
     (observable laptop (new_engine\<lparr>status_cb := Some 1, transcript_cb := Some 2\<rparr>)
       (snd (run_loop raises_once [Inr ''cd'', Inl ''Input overflowed''] (initial_state\<lparr>chunk_count := 6\<rparr>))))"
proof -
  let ?s = "initial_state\<lparr>chunk_count := 6\<rparr>"
  have h: "chunks_per_interval \<le> chunk_count ?s + 1 \<and>
      raises_once (cycles_run ?s) (concat (window ?s @ [''cd''])) = Inl ''CUDA out of memory''"
    by (simp add: chunks_per_interval_value raises_once_def initial_state_def)
  show ?thesis
    using h recoverable_errors_are_absorbed[where infer = raises_once and s = ?s and d = "''cd''"
        and e = "''CUDA out of memory''" and rds = "[Inl ''Input overflowed'']"]
      recoverable_errors_are_absorbed[where infer = raises_once and s = ?s
        and rds = "[Inr ''cd'', Inl ''Input overflowed'']" and h = laptop
        and eng = "new_engine\<lparr>status_cb := Some 1, transcript_cb := Some 2\<rparr>"]
    by (simp add: initial_state_def iteration_def list_all_iff observable_def perform_def
          emit_status_def new_engine_def)
qed

subsection \<open>The two workers\<close>

lemma classify_wf:
  "fst (classify t s) = fst (wf_classify t s) \<and>
   snd (classify t s) = concat (map with_routing (snd (wf_classify t s)))"
  by (simp add: classify_def wf_classify_def Let_def)

lemma cycle_wf:
  "fst (cycle infer s) = fst (wf_cycle infer s) \<and>
   snd (cycle infer s) = concat (map with_routing (snd (wf_cycle infer s)))"
  by (simp add: cycle_def wf_cycle_def Let_def split_beta classify_wf)

lemma iteration_wf:
  "fst (iteration infer rd s) = fst (wf_iteration infer rd s) \<and>
   snd (iteration infer rd s) = concat (map with_routing (snd (wf_iteration infer rd s)))"
  by (cases rd) (simp_all add: iteration_def wf_iteration_def Let_def cycle_wf)

lemma run_loop_wf:
  "fst (run_loop infer rds s) = fst (wf_run_loop infer rds s) \<and>
   snd (run_loop infer rds s) = concat (map with_routing (snd (wf_run_loop infer rds s)))"
proof (induction rds arbitrary: s)
  case Nil then show ?case by simp
next
  case (Cons rd rds)
  then show ?case
    by (simp add: split_beta iteration_wf)
qed

lemma with_routing_transcripts: "transcripts (concat (map with_routing cs)) = transcripts cs"
proof (induction cs)
  case Nil then show ?case by (simp add: transcripts_def)
next
  case (Cons c cs)
  then show ?case by (cases c) (simp_all add: transcripts_def)
qed

lemma with_routing_filter:
  "\<not> list_ex is_route cs \<Longrightarrow> filter (\<lambda>c. \<not> is_route c) (concat (map with_routing cs)) = cs"
proof (induction cs)
  case Nil then show ?case by simp
next
  case (Cons c cs)
  then show ?case by (cases c) simp_all
qed

text \<open>The effects of whisperflow hold no routing call and no subprocess call.\<close>

lemma wf_classify_plain: "list_all plain (snd (wf_classify t s))"
  by (simp add: wf_classify_def Let_def plain_def)

lemma wf_cycle_plain: "list_all plain (snd (wf_cycle infer s))"
  using wf_classify_plain by (simp add: wf_cycle_def Let_def split_beta plain_def)

lemma wf_iteration_plain: "list_all plain (snd (wf_iteration infer rd s))"
  by (cases rd) (simp_all add: wf_iteration_def Let_def wf_cycle_plain)

lemma wf_run_loop_plain: "list_all plain (snd (wf_run_loop infer rds s))"
  by (induction rds arbitrary: s) (simp_all add: split_beta wf_iteration_plain)

lemma load_model_plain: "list_all plain (snd (snd (load_model h e)))"
  by (simp add: load_model_def Let_def plain_def split: option.splits)

lemma load_model_truncate:
  "fst (load_model h (whisperflow_engine.truncate e)) = fst (load_model h e) \<and>
   snd (snd (load_model h (whisperflow_engine.truncate e))) = snd (snd (load_model h e)) \<and>
   fst (snd (load_model h (whisperflow_engine.truncate e))) = whisperflow_engine.truncate (fst (snd (load_model h e)))"
  by (simp add: load_model_def Let_def whisperflow_engine.truncate_def split: option.splits)

lemma wf_worker_loop_truncate:
  "snd (wf_worker_loop h infer rds (whisperflow_engine.truncate e)) = snd (wf_worker_loop h infer rds e) \<and>
   fst (wf_worker_loop h infer rds (whisperflow_engine.truncate e)) = whisperflow_engine.truncate (fst (wf_worker_loop h infer rds e))"
  using load_model_truncate[of h e]
  by (auto simp: wf_worker_loop_def Let_def split_beta whisperflow_engine.truncate_def split: option.splits)

text \<open>Carrying out the routing calls.\<close>

lemma plain_filter: "list_all plain cs \<Longrightarrow> filter (\<lambda>c. \<not> is_run c \<and> \<not> is_run_input c) cs = cs"
  by (induction cs) (simp_all add: plain_def)

lemma processes_transcripts:
  "\<forall>x \<in> set cs. is_run x \<or> is_run_input x \<Longrightarrow>
   transcripts cs = [] \<and> filter (\<lambda>c. \<not> is_run c \<and> \<not> is_run_input c) cs = []"
proof (induction cs)
  case Nil then show ?case by (simp add: transcripts_def)
next
  case (Cons c cs)
  then show ?case by (cases c) (simp_all add: transcripts_def)
qed

lemma route_transcripts:
  "transcripts (snd (route_final_text h e t)) = [] \<and>
   filter (\<lambda>c. \<not> is_run c \<and> \<not> is_run_input c) (snd (route_final_text h e t)) = []"
  by (rule processes_transcripts) (simp add: route_final_text_processes)

lemma carry_out_with_routing:
  assumes "list_all plain ws"
  shows "prefix (transcripts (snd (carry_out h e (concat (map with_routing ws))))) (transcripts ws) \<and>
         (fst (carry_out h e (concat (map with_routing ws))) = None \<longrightarrow>
            transcripts (snd (carry_out h e (concat (map with_routing ws)))) = transcripts ws \<and>
            filter (\<lambda>c. \<not> is_run c \<and> \<not> is_run_input c)
              (snd (carry_out h e (concat (map with_routing ws)))) = ws) \<and>
         (fst (carry_out h e (concat (map with_routing ws))) \<noteq> None \<longrightarrow>
            transcripts (snd (carry_out h e (concat (map with_routing ws)))) \<noteq> [] \<and>
            \<not> is_partial (last (transcripts (snd (carry_out h e (concat (map with_routing ws)))))))"
  using assms
proof (induction ws)
  case Nil
  then show ?case by (simp add: transcripts_def)
next
  case (Cons w ws)
  then have ih: "prefix (transcripts (snd (carry_out h e (concat (map with_routing ws))))) (transcripts ws)"
    "fst (carry_out h e (concat (map with_routing ws))) = None \<Longrightarrow>
            transcripts (snd (carry_out h e (concat (map with_routing ws)))) = transcripts ws \<and>
            filter (\<lambda>c. \<not> is_run c \<and> \<not> is_run_input c)
              (snd (carry_out h e (concat (map with_routing ws)))) = ws"
    "fst (carry_out h e (concat (map with_routing ws))) \<noteq> None \<Longrightarrow>
            transcripts (snd (carry_out h e (concat (map with_routing ws)))) \<noteq> [] \<and>
            \<not> is_partial (last (transcripts (snd (carry_out h e (concat (map with_routing ws))))))"
    and pw: "plain w"
    by simp_all
  obtain r rs where rt: "carry_out h e (concat (map with_routing ws)) = (r, rs)"
    by (cases "carry_out h e (concat (map with_routing ws))")
  have ih': "prefix (transcripts rs) (transcripts ws)"
    "r = None \<Longrightarrow> transcripts rs = transcripts ws \<and>
       filter (\<lambda>c. \<not> is_run c \<and> \<not> is_run_input c) rs = ws"
    "r \<noteq> None \<Longrightarrow> transcripts rs \<noteq> [] \<and> \<not> is_partial (last (transcripts rs))"
    using ih rt by simp_all
  have tw: "transcripts (w # ws) = transcript_of w @ transcripts ws"
    by (simp add: transcripts_def)
  show ?case
  proof (cases "is_final w")
    case False
    then have wr: "with_routing w = [w]"
      by (cases w) simp_all
    have co: "carry_out h e (concat (map with_routing (w # ws))) = (r, w # rs)"
      using pw rt wr by (cases w) (simp_all add: plain_def)
    have t: "transcripts (w # rs) = transcript_of w @ transcripts rs"
      by (simp add: transcripts_def)
    have f: "filter (\<lambda>c. \<not> is_run c \<and> \<not> is_run_input c) (w # rs) =
             w # filter (\<lambda>c. \<not> is_run c \<and> \<not> is_run_input c) rs"
      using pw by (simp add: plain_def)
    show ?thesis
      unfolding co fst_conv snd_conv t f tw
      using ih' by auto
  next
    case True
    then obtain t where w: "w = EmitTranscript (TranscriptEvent False t)"
      by (cases w) (auto, metis transcript_event.collapse)
    obtain q qs where rq: "route_final_text h e t = (q, qs)"
      by (cases "route_final_text h e t")
    have qt: "transcripts qs = []" "filter (\<lambda>c. \<not> is_run c \<and> \<not> is_run_input c) qs = []"
      using route_transcripts[of h e t] rq by simp_all
    have tq: "transcripts (w # qs @ rs) = TranscriptEvent False t # transcripts rs"
             "transcripts (w # qs) = [TranscriptEvent False t]"
      using qt(1) by (simp_all add: w transcripts_def)
    have fq: "filter (\<lambda>c. \<not> is_run c \<and> \<not> is_run_input c) (w # qs @ rs) =
              w # filter (\<lambda>c. \<not> is_run c \<and> \<not> is_run_input c) rs"
      using qt(2) by (simp add: w)
    have tw': "transcripts (w # ws) = TranscriptEvent False t # transcripts ws"
      by (simp add: w transcripts_def)
    show ?thesis
    proof (cases q)
      case (Inl exc)
      then have co: "carry_out h e (concat (map with_routing (w # ws))) = (Some exc, w # qs)"
        using rq by (simp add: w)
      show ?thesis
        unfolding co fst_conv snd_conv tq tw'
        by simp
    next
      case (Inr u)
      then have co: "carry_out h e (concat (map with_routing (w # ws))) = (r, w # qs @ rs)"
        using rq rt by (simp add: w)
      show ?thesis
        unfolding co fst_conv snd_conv tq fq tw'
        using ih' by auto
    qed
  qed
qed

text \<open>The loop of wisprtux against the loop of whisperflow, and the two workers.\<close>

lemma routed_loop_wf:
  "prefix (transcripts (snd (routed_loop h e infer rds s))) (transcripts (snd (wf_run_loop infer rds s))) \<and>
   (fst (routed_loop h e infer rds s) = None \<longrightarrow>
      transcripts (snd (routed_loop h e infer rds s)) = transcripts (snd (wf_run_loop infer rds s)) \<and>
      filter (\<lambda>c. \<not> is_run c \<and> \<not> is_run_input c) (snd (routed_loop h e infer rds s)) =
        snd (wf_run_loop infer rds s)) \<and>
   (fst (routed_loop h e infer rds s) \<noteq> None \<longrightarrow>
      transcripts (snd (routed_loop h e infer rds s)) \<noteq> [] \<and>
      \<not> is_partial (last (transcripts (snd (routed_loop h e infer rds s)))))"
proof (induction rds arbitrary: s)
  case Nil
  then show ?case by (simp add: transcripts_def)
next
  case (Cons rd rds)
  let ?w1 = "snd (wf_iteration infer rd s)"
  let ?s1 = "fst (wf_iteration infer rd s)"
  have it: "iteration infer rd s = (?s1, concat (map with_routing ?w1))"
    using iteration_wf[of infer rd s] by (cases "iteration infer rd s") simp
  obtain r1 c1 where co: "carry_out h e (concat (map with_routing ?w1)) = (r1, c1)"
    by (cases "carry_out h e (concat (map with_routing ?w1))")
  from carry_out_with_routing[OF wf_iteration_plain, of h e infer rd s]
  have c: "prefix (transcripts c1) (transcripts ?w1)"
    "r1 = None \<Longrightarrow> transcripts c1 = transcripts ?w1 \<and>
       filter (\<lambda>c. \<not> is_run c \<and> \<not> is_run_input c) c1 = ?w1"
    "r1 \<noteq> None \<Longrightarrow> transcripts c1 \<noteq> [] \<and> \<not> is_partial (last (transcripts c1))"
    unfolding co by simp_all
  obtain r2 c2 where rl: "routed_loop h e infer rds ?s1 = (r2, c2)"
    by (cases "routed_loop h e infer rds ?s1")
  from Cons.IH[of ?s1]
  have ih: "prefix (transcripts c2) (transcripts (snd (wf_run_loop infer rds ?s1)))"
    "r2 = None \<Longrightarrow> transcripts c2 = transcripts (snd (wf_run_loop infer rds ?s1)) \<and>
       filter (\<lambda>c. \<not> is_run c \<and> \<not> is_run_input c) c2 = snd (wf_run_loop infer rds ?s1)"
    "r2 \<noteq> None \<Longrightarrow> transcripts c2 \<noteq> [] \<and> \<not> is_partial (last (transcripts c2))"
    unfolding rl by simp_all
  have wf: "snd (wf_run_loop infer (rd # rds) s) = ?w1 @ snd (wf_run_loop infer rds ?s1)"
    by (simp add: split_beta)
  show ?case
  proof (cases r1)
    case (Some exc)
    then have rt: "routed_loop h e infer (rd # rds) s = (Some exc, c1)"
      using it co by simp
    show ?thesis
      unfolding rt wf fst_conv snd_conv transcripts_append
      using c Some by (auto intro: prefix_prefix)
  next
    case None
    then have rt: "routed_loop h e infer (rd # rds) s = (r2, c1 @ c2)"
      using it co rl by simp
    show ?thesis
      unfolding rt wf fst_conv snd_conv transcripts_append
      using c None ih by auto
  qed
qed

lemma load_model_transcripts: "transcripts (snd (snd (load_model h e))) = []"
  by (simp add: load_model_def Let_def transcripts_def split: option.splits)

lemma worker_loop_wf:
  "prefix (transcripts (snd (worker_loop h infer rds e)))
          (transcripts (snd (wf_worker_loop h infer rds e))) \<and>
   snd (fst (worker_loop h infer rds e)) = fst (wf_worker_loop h infer rds e) \<and>
   (fst (fst (worker_loop h infer rds e)) = None \<longrightarrow>
      transcripts (snd (worker_loop h infer rds e)) = transcripts (snd (wf_worker_loop h infer rds e)) \<and>
      filter (\<lambda>c. \<not> is_run c \<and> \<not> is_run_input c) (snd (worker_loop h infer rds e)) =
        snd (wf_worker_loop h infer rds e)) \<and>
   (fst (fst (worker_loop h infer rds e)) \<noteq> None \<longrightarrow>
      transcripts (snd (worker_loop h infer rds e)) \<noteq> [] \<and>
      \<not> is_partial (last (transcripts (snd (worker_loop h infer rds e)))))"
proof -
  obtain ok e1 c1 where l: "(if model e = None then load_model h e else (True, e, [])) = (ok, e1, c1)"
    by (cases "if model e = None then load_model h e else (True, e, [])") auto
  have p1: "list_all plain c1" "transcripts c1 = []"
    using l load_model_plain[of h e] load_model_transcripts[of h e]
    by (auto simp: transcripts_def split: if_splits)
  have f1: "filter (\<lambda>c. \<not> is_run c \<and> \<not> is_run_input c) c1 = c1"
    by (rule plain_filter[OF p1(1)])
  note rw = routed_loop_wf[of h e1 infer rds initial_state]
  show ?thesis
  proof (cases "ok \<and> import_pyaudio h \<and> audio_open h = None")
    case False
    then show ?thesis
      using l p1 f1
      by (auto simp: worker_loop_def wf_worker_loop_def transcripts_append transcripts_def
            split: option.splits)
  next
    case True
    then have w: "worker_loop h infer rds e =
        ((fst (routed_loop h e1 infer rds initial_state), e1),
         c1 @ [EmitStatus ''Recording...''] @ snd (routed_loop h e1 infer rds initial_state) @
         [StreamStop, StreamClose, AudioTerminate, EmitStatus ''Ready''])"
      and f: "wf_worker_loop h infer rds e =
        (e1, c1 @ [EmitStatus ''Recording...''] @ snd (wf_run_loop infer rds initial_state) @
             [StreamStop, StreamClose, AudioTerminate, EmitStatus ''Ready''])"
      using l by (simp_all add: worker_loop_def wf_worker_loop_def)
    have t: "transcripts (c1 @ [EmitStatus ''Recording...''] @ xs @
               [StreamStop, StreamClose, AudioTerminate, EmitStatus ''Ready'']) = transcripts xs" for xs
      using p1(2) by (simp add: transcripts_def)
    have g: "filter (\<lambda>c. \<not> is_run c \<and> \<not> is_run_input c)
               (c1 @ [EmitStatus ''Recording...''] @ xs @
                [StreamStop, StreamClose, AudioTerminate, EmitStatus ''Ready'']) =
             c1 @ [EmitStatus ''Recording...''] @ filter (\<lambda>c. \<not> is_run c \<and> \<not> is_run_input c) xs @
                [StreamStop, StreamClose, AudioTerminate, EmitStatus ''Ready'']" for xs
      using f1 by simp
    show ?thesis
      unfolding w f fst_conv snd_conv t g
      using rw by auto
  qed
qed

text \<open>
  Claim C10 does not hold of the two workers: the routing call of wisprtux stands inside the
  \<^verbatim>\<open>try\<close> of the loop with no \<^verbatim>\<open>except\<close>, so an exception of the routing ends the loop.
  On the same host, frame reads and inference results, the transcript events of wisprtux are
  an initial part of those of whisperflow (run on the engine without the wisprtux fields),
  and the whisperflow fields are left the same. When no routing call raises, the events are
  the same and the effects of wisprtux without the processes started by the routing are the
  effects of whisperflow. When a routing call raises, wisprtux stops right after a final
  event, whatever whisperflow goes on to emit.
\<close>

theorem wisprtux_worker_stops_where_routing_raises:
  "prefix (transcripts (snd (worker_loop h infer rds e)))
          (transcripts (snd (wf_worker_loop h infer rds (whisperflow_engine.truncate e)))) \<and>
   whisperflow_engine.truncate (snd (fst (worker_loop h infer rds e))) =
     fst (wf_worker_loop h infer rds (whisperflow_engine.truncate e)) \<and>
   (fst (fst (worker_loop h infer rds e)) = None \<longrightarrow>
      transcripts (snd (worker_loop h infer rds e)) =
        transcripts (snd (wf_worker_loop h infer rds (whisperflow_engine.truncate e))) \<and>
      filter (\<lambda>c. \<not> is_run c \<and> \<not> is_run_input c) (snd (worker_loop h infer rds e)) =
        snd (wf_worker_loop h infer rds (whisperflow_engine.truncate e))) \<and>
   (fst (fst (worker_loop h infer rds e)) \<noteq> None \<longrightarrow>
      transcripts (snd (worker_loop h infer rds e)) \<noteq> [] \<and>
      \<not> is_partial (last (transcripts (snd (worker_loop h infer rds e)))))"
proof -
  have tr: "snd (wf_worker_loop h infer rds (whisperflow_engine.truncate e)) =
              snd (wf_worker_loop h infer rds e)"
       "fst (wf_worker_loop h infer rds (whisperflow_engine.truncate e)) =
              whisperflow_engine.truncate (fst (wf_worker_loop h infer rds e))"
    using wf_worker_loop_truncate[of h infer rds e] by simp_all
  show ?thesis
    unfolding tr using worker_loop_wf[of h infer rds e] by simp
qed

theorem wisprtux_worker_stops_where_routing_raises_witness:
  "fst (fst (worker_loop ascii_desk always_note (replicate 28 (Inr ''ab'')) dictating)) =
     Some UnicodeEncodeError \<and>
   transcripts (snd (worker_loop ascii_desk always_note (replicate 28 (Inr ''ab'')) dictating)) =
     [TranscriptEvent True note_sign, TranscriptEvent True note_sign,
      TranscriptEvent False note_sign] \<and>
   transcripts (snd (wf_worker_loop ascii_desk always_note (replicate 28 (Inr ''ab''))
                       (whisperflow_engine.truncate dictating))) =
     [TranscriptEvent True note_sign, TranscriptEvent True note_sign,
      TranscriptEvent False note_sign, TranscriptEvent True note_sign] \<and>
   \<not> is_partial (last (transcripts
      (snd (worker_loop ascii_desk always_note (replicate 28 (Inr ''ab'')) dictating)))) \<and>
   fst (fst (worker_loop laptop always_hi (replicate 28 (Inr ''ab'')) dictating)) = None \<and>
   transcripts (snd (worker_loop laptop always_hi (replicate 28 (Inr ''ab'')) dictating)) =
     [TranscriptEvent True ''hi'', TranscriptEvent True ''hi'', TranscriptEvent False ''hi'',
      TranscriptEvent True ''hi''] \<and>
   transcripts (snd (wf_worker_loop laptop always_hi (replicate 28 (Inr ''ab''))
                       (whisperflow_engine.truncate dictating))) =
     [TranscriptEvent True ''hi'', TranscriptEvent True ''hi'', TranscriptEvent False ''hi'',
      TranscriptEvent True ''hi''] \<and>
   filter (\<lambda>c. \<not> is_run c \<and> \<not> is_run_input c)
     (snd (worker_loop laptop always_hi (replicate 28 (Inr ''ab'')) dictating)) =
     snd (wf_worker_loop laptop always_hi (replicate 28 (Inr ''ab''))
            (whisperflow_engine.truncate dictating))"
proof -
  have a: "fst (fst (worker_loop ascii_desk always_note (replicate 28 (Inr ''ab'')) dictating)) =
     Some UnicodeEncodeError"
    by code_simp
  have b: "transcripts (snd (worker_loop ascii_desk always_note (replicate 28 (Inr ''ab'')) dictating)) =
     [TranscriptEvent True note_sign, TranscriptEvent True note_sign,
      TranscriptEvent False note_sign]"
    by code_simp
  have c: "transcripts (snd (wf_worker_loop ascii_desk always_note (replicate 28 (Inr ''ab''))
                       (whisperflow_engine.truncate dictating))) =
     [TranscriptEvent True note_sign, TranscriptEvent True note_sign,
      TranscriptEvent False note_sign, TranscriptEvent True note_sign]"
    by code_simp
  have d: "fst (fst (worker_loop laptop always_hi (replicate 28 (Inr ''ab'')) dictating)) = None"
    by code_simp
  have f: "transcripts (snd (wf_worker_loop laptop always_hi (replicate 28 (Inr ''ab''))
                       (whisperflow_engine.truncate dictating))) =
     [TranscriptEvent True ''hi'', TranscriptEvent True ''hi'', TranscriptEvent False ''hi'',
      TranscriptEvent True ''hi'']"
    by code_simp
  show ?thesis
    using wisprtux_worker_stops_where_routing_raises[of ascii_desk always_note
            "replicate 28 (Inr ''ab'')" dictating]
          wisprtux_worker_stops_where_routing_raises[of laptop always_hi
            "replicate 28 (Inr ''ab'')" dictating]
    unfolding a b c d f by simp
qed

subsection \<open>Recording control\<close>

text \<open>
  Claim C4: \<^verbatim>\<open>start_recording\<close> on an engine that is recording, and \<^verbatim>\<open>stop_recording\<close> on
  one that is not, return the engine with every field as it was and do nothing: no window is
  captured, no thread is started, no status is emitted, and nothing is raised.
\<close>

theorem start_stop_idempotent:
  "(recording e \<longrightarrow> start_recording h thread e = (Inr e, [])) \<and>
   (\<not> recording e \<longrightarrow> stop_recording e = (e, []))"
  by (simp add: start_recording_def stop_recording_def)

theorem start_stop_idempotent_witness:
  "recording (new_engine\<lparr>recording := True, worker_thread := Some 1\<rparr>) \<and>
   start_recording laptop 2 (new_engine\<lparr>recording := True, worker_thread := Some 1\<rparr>) =
     (Inr (new_engine\<lparr>recording := True, worker_thread := Some 1\<rparr>), []) \<and>
   \<not> recording new_engine \<and> stop_recording new_engine = (new_engine, [])"
  using start_stop_idempotent[of "new_engine\<lparr>recording := True, worker_thread := Some 1\<rparr>" laptop 2]
    start_stop_idempotent[of new_engine]
  by (simp add: new_engine_def)

subsection \<open>Model loading\<close>

text \<open>
  Claim C5: if the weights file for the selected model exists, \<^verbatim>\<open>_load_model\<close> makes one
  call of \<^verbatim>\<open>whisper.load_model\<close>, on that path and with no download root, whatever the
  offline flag, and the model it stores on success is the one loaded from that path; else if
  offline is off it makes one call, by model name with the models directory as download root;
  else it makes no call at all, emits "Model not available offline" and returns False with
  the engine unchanged.
\<close>

theorem load_model_policy:
  "(path_exists h (local_path h e) \<longrightarrow>
      whisper_loads (snd (snd (load_model h e))) = [WhisperLoad (local_path h e) None (device_of h)] \<and>
      (whisper_load_model h (local_path h e) None (device_of h) = None \<longrightarrow>
         fst (load_model h e) \<and>
         model (fst (snd (load_model h e))) = Some (WhisperModel (local_path h e) (device_of h)))) \<and>
   (\<not> path_exists h (local_path h e) \<and> \<not> offline e \<longrightarrow>
      whisper_loads (snd (snd (load_model h e))) =
        [WhisperLoad (str_replace ''.en'' [] (model_name e)) (Some (MODELS_DIR h)) (device_of h)]) \<and>
   (\<not> path_exists h (local_path h e) \<and> offline e \<longrightarrow>
      load_model h e =
        (False, e, [EmitStatus ''Loading model...'', EmitStatus ''Model not available offline'']) \<and>
      whisper_loads (snd (snd (load_model h e))) = [])"
  by (auto simp: load_model_def local_path_def device_of_def whisper_loads_def Let_def
       split: option.splits)

theorem load_model_policy_witness:
  "path_exists laptop (local_path laptop (new_engine\<lparr>offline := True\<rparr>)) \<and>
   whisper_load_model laptop (local_path laptop (new_engine\<lparr>offline := True\<rparr>)) None (device_of laptop) = None \<and>
   load_model laptop (new_engine\<lparr>offline := True\<rparr>) =
     (True, new_engine\<lparr>offline := True, model := Some (WhisperModel ''/opt/wisprtux/models/tiny.en.pt'' ''cpu'')\<rparr>,
      [EmitStatus ''Loading model...'', WhisperLoad ''/opt/wisprtux/models/tiny.en.pt'' None ''cpu'',
       EmitStatus ''Model loaded'']) \<and>
   \<not> path_exists laptop (local_path laptop (new_engine\<lparr>model_name := ''base.en''\<rparr>)) \<and>
   \<not> offline (new_engine\<lparr>model_name := ''base.en''\<rparr>) \<and>
   whisper_loads (snd (snd (load_model laptop (new_engine\<lparr>model_name := ''base.en''\<rparr>)))) =
     [WhisperLoad ''base'' (Some ''/opt/wisprtux/models'') ''cpu''] \<and>
   offline (new_engine\<lparr>model_name := ''base.en'', offline := True\<rparr>) \<and>
   load_model laptop (new_engine\<lparr>model_name := ''base.en'', offline := True\<rparr>) =
     (False, new_engine\<lparr>model_name := ''base.en'', offline := True\<rparr>,
      [EmitStatus ''Loading model...'', EmitStatus ''Model not available offline''])"
proof -
  have p1: "local_path laptop (new_engine\<lparr>offline := True\<rparr>) = ''/opt/wisprtux/models/tiny.en.pt''"
    by (simp add: local_path_def laptop_def new_engine_def MODELS_DIR_def path_join_def
          dict_get_def MODEL_FILES_def)
  have p2: "local_path laptop (new_engine\<lparr>model_name := ''base.en''\<rparr>) = ''/opt/wisprtux/models/base.en.pt''"
       "local_path laptop (new_engine\<lparr>model_name := ''base.en'', offline := True\<rparr>) = ''/opt/wisprtux/models/base.en.pt''"
    by (simp_all add: local_path_def laptop_def new_engine_def MODELS_DIR_def path_join_def
          dict_get_def MODEL_FILES_def)
  have r: "str_replace ''.en'' [] ''base.en'' = ''base''"
    by code_simp
  have d: "device_of laptop = ''cpu''" "MODELS_DIR laptop = ''/opt/wisprtux/models''"
    by (simp_all add: device_of_def laptop_def MODELS_DIR_def path_join_def)
  have e1: "path_exists laptop ''/opt/wisprtux/models/tiny.en.pt''"
       "\<not> path_exists laptop ''/opt/wisprtux/models/base.en.pt''"
       "whisper_load_model laptop ''/opt/wisprtux/models/tiny.en.pt'' None ''cpu'' = None"
    by (simp_all add: laptop_def)
  show ?thesis
    using load_model_policy[of laptop "new_engine\<lparr>offline := True\<rparr>"]
      load_model_policy[of laptop "new_engine\<lparr>model_name := ''base.en''\<rparr>"]
      load_model_policy[of laptop "new_engine\<lparr>model_name := ''base.en'', offline := True\<rparr>"]
    unfolding p1 p2 d
    by (simp add: e1 r new_engine_def load_model_def Let_def dict_get_def MODEL_FILES_def
          MODELS_DIR_def path_join_def laptop_def)
qed

lemma dict_get_unknown: "k \<notin> set (map fst d) \<Longrightarrow> dict_get d k dflt = dflt"
  by (simp add: dict_get_def map_of_eq_None_iff[THEN iffD2])

text \<open>
  Claim C9: the known model names are the five of \<^verbatim>\<open>MODEL_FILES\<close>; for any other name the
  local path is that of \<^verbatim>\<open>tiny.en.pt\<close> in the models directory, and when that file exists
  and loads, \<^verbatim>\<open>_load_model\<close> succeeds with the tiny.en weights as the engine's model and
  the statuses of an ordinary load.
\<close>

theorem unknown_model_loads_tiny_en:
  "map fst MODEL_FILES = [''tiny.en'', ''base.en'', ''small.en'', ''medium.en'', ''large''] \<and>
   (model_name e \<notin> set (map fst MODEL_FILES) \<longrightarrow>
      local_path h e = path_join (MODELS_DIR h) ''tiny.en.pt'' \<and>
      (path_exists h (path_join (MODELS_DIR h) ''tiny.en.pt'') \<and>
       whisper_load_model h (path_join (MODELS_DIR h) ''tiny.en.pt'') None (device_of h) = None \<longrightarrow>
         load_model h e =
           (True,
            e\<lparr>model := Some (WhisperModel (path_join (MODELS_DIR h) ''tiny.en.pt'') (device_of h))\<rparr>,
            [EmitStatus ''Loading model...'',
             WhisperLoad (path_join (MODELS_DIR h) ''tiny.en.pt'') None (device_of h),
             EmitStatus ''Model loaded''])))"
proof (intro conjI impI)
  show "map fst MODEL_FILES = [''tiny.en'', ''base.en'', ''small.en'', ''medium.en'', ''large'']"
    by (simp add: MODEL_FILES_def)
next
  assume u: "model_name e \<notin> set (map fst MODEL_FILES)"
  then have g: "dict_get MODEL_FILES (model_name e) ''tiny.en.pt'' = ''tiny.en.pt''"
    by (rule dict_get_unknown)
  then show "local_path h e = path_join (MODELS_DIR h) ''tiny.en.pt''"
    by (simp add: local_path_def)
  assume "path_exists h (path_join (MODELS_DIR h) ''tiny.en.pt'') \<and>
       whisper_load_model h (path_join (MODELS_DIR h) ''tiny.en.pt'') None (device_of h) = None"
  then show "load_model h e =
           (True,
            e\<lparr>model := Some (WhisperModel (path_join (MODELS_DIR h) ''tiny.en.pt'') (device_of h))\<rparr>,
            [EmitStatus ''Loading model...'',
             WhisperLoad (path_join (MODELS_DIR h) ''tiny.en.pt'') None (device_of h),
             EmitStatus ''Model loaded''])"
    using g by (simp add: load_model_def Let_def device_of_def)
qed

theorem unknown_model_loads_tiny_en_witness:
  "''huge-v9'' \<notin> set (map fst MODEL_FILES) \<and>
   load_model laptop (new_engine\<lparr>model_name := ''huge-v9''\<rparr>) =
     (True,
      new_engine\<lparr>model_name := ''huge-v9'',
                 model := Some (WhisperModel ''/opt/wisprtux/models/tiny.en.pt'' ''cpu'')\<rparr>,
      [EmitStatus ''Loading model...'', WhisperLoad ''/opt/wisprtux/models/tiny.en.pt'' None ''cpu'',
       EmitStatus ''Model loaded''])"
proof -
  have u: "model_name (new_engine\<lparr>model_name := ''huge-v9''\<rparr>) \<notin> set (map fst MODEL_FILES)"
    by (simp add: MODEL_FILES_def)
  have d: "device_of laptop = ''cpu''" "path_join (MODELS_DIR laptop) ''tiny.en.pt'' = ''/opt/wisprtux/models/tiny.en.pt''"
    by (simp_all add: device_of_def laptop_def MODELS_DIR_def path_join_def)
  have e1: "path_exists laptop ''/opt/wisprtux/models/tiny.en.pt''"
       "whisper_load_model laptop ''/opt/wisprtux/models/tiny.en.pt'' None ''cpu'' = None"
    by (simp_all add: laptop_def)
  show ?thesis
    using u e1 unknown_model_loads_tiny_en[of "new_engine\<lparr>model_name := ''huge-v9''\<rparr>" laptop]
    unfolding d
    by (simp add: new_engine_def MODEL_FILES_def)
qed

subsection \<open>Output routing\<close>

text \<open>
  Claim C8 holds in its first half and not in its second. With the clipboard on and typing
  off, routing a text starts no xdotool process at all, whatever window was captured: it does
  what \<^verbatim>\<open>set_clipboard\<close> does and nothing more. The clipboard processes are the same
  whatever the typing flag, the captured window and the outcome of any xdotool process. The
  xdotool processes are the same whatever the clipboard flag, the clipboard tools installed
  and their outcome, as long as the clipboard block does not raise. But \<^verbatim>\<open>set_clipboard\<close>
  catches \<^verbatim>\<open>SubprocessError\<close> and \<^verbatim>\<open>OSError\<close> only and \<^verbatim>\<open>_route_final_text\<close> has no
  \<^verbatim>\<open>try\<close>: when a clipboard tool raises anything else, the routing ends with that exception
  after the clipboard call and starts no xdotool process, although typing is on and the
  captured window is valid.
\<close>

theorem clipboard_exception_skips_typing:
  "(auto_clipboard e \<and> \<not> auto_type e \<longrightarrow>
      filter is_run (snd (route_final_text h e t)) = [] \<and>
      snd (route_final_text h e t) = (if t = [] then [] else snd (set_clipboard h t))) \<and>
   filter is_run_input
     (snd (route_final_text (h\<lparr>subprocess_run := r\<rparr>) (e\<lparr>auto_type := b, origin_window := ow\<rparr>) t)) =
     filter is_run_input (snd (route_final_text h e t)) \<and>
   (\<not> (auto_clipboard e \<and> isl (fst (set_clipboard h t))) \<and>
    \<not> (b \<and> isl (fst (set_clipboard (h\<lparr>which := wh, run_with_input := ri\<rparr>) t))) \<longrightarrow>
      filter is_run
        (snd (route_final_text (h\<lparr>which := wh, run_with_input := ri\<rparr>) (e\<lparr>auto_clipboard := b\<rparr>) t)) =
      filter is_run (snd (route_final_text h e t))) \<and>
   (t \<noteq> [] \<and> auto_clipboard e \<and> fst (set_clipboard h t) = Inl exc \<longrightarrow>
      route_final_text h e t = (Inl exc, snd (set_clipboard h t)) \<and>
      filter is_run (snd (route_final_text h e t)) = [])"
proof (intro conjI impI)
  assume a: "auto_clipboard e \<and> \<not> auto_type e"
  then show "filter is_run (snd (route_final_text h e t)) = []"
    by (simp add: route_typing_calls)
  from a show "snd (route_final_text h e t) = (if t = [] then [] else snd (set_clipboard h t))"
    by (simp add: route_final_text_calls)
next
  have "set_clipboard (h\<lparr>subprocess_run := r\<rparr>) t = set_clipboard h t"
    unfolding set_clipboard_def by (rule try_clipboard_host) simp_all
  then show "filter is_run_input
     (snd (route_final_text (h\<lparr>subprocess_run := r\<rparr>) (e\<lparr>auto_type := b, origin_window := ow\<rparr>) t)) =
     filter is_run_input (snd (route_final_text h e t))"
    by (simp add: route_clipboard_calls)
next
  assume "\<not> (auto_clipboard e \<and> isl (fst (set_clipboard h t))) \<and>
    \<not> (b \<and> isl (fst (set_clipboard (h\<lparr>which := wh, run_with_input := ri\<rparr>) t)))"
  moreover have "focus_window (h\<lparr>which := wh, run_with_input := ri\<rparr>) w = focus_window h w" for w
    by (simp add: focus_window_def run_cmd_def)
  ultimately show "filter is_run
        (snd (route_final_text (h\<lparr>which := wh, run_with_input := ri\<rparr>) (e\<lparr>auto_clipboard := b\<rparr>) t)) =
      filter is_run (snd (route_final_text h e t))"
    by (auto simp: route_typing_calls type_text_calls)
next
  assume a: "t \<noteq> [] \<and> auto_clipboard e \<and> fst (set_clipboard h t) = Inl exc"
  then show "route_final_text h e t = (Inl exc, snd (set_clipboard h t))"
    by (simp add: route_final_text_clipboard_raises)
  from a show "filter is_run (snd (route_final_text h e t)) = []"
    by (simp add: route_typing_calls)
qed

theorem clipboard_exception_skips_typing_witness:
  "valid editor \<and>
   route_final_text (laptop\<lparr>subprocess_run := (\<lambda>args. Inr (0, ''4194311''))\<rparr>)
     (new_engine\<lparr>auto_clipboard := True, auto_type := True, origin_window := Some editor\<rparr>) ''hi'' =
     (Inr (),
      [RunInput [''xsel'', ''--clipboard'', ''--input''] ''hi'',
       Run [''xdotool'', ''windowactivate'', ''--sync'', ''4194311''],
       Run [''xdotool'', ''type'', ''--clearmodifiers'', ''--delay'', ''12'', ''--'', ''hi'']]) \<and>
   fst (set_clipboard ascii_desk note_sign) = Inl UnicodeEncodeError \<and>
   route_final_text ascii_desk
     (new_engine\<lparr>auto_clipboard := True, auto_type := True, origin_window := Some editor\<rparr>) note_sign =
     (Inl UnicodeEncodeError, [RunInput [''xsel'', ''--clipboard'', ''--input''] note_sign]) \<and>
   filter is_run (snd (route_final_text ascii_desk
     (new_engine\<lparr>auto_clipboard := True, auto_type := True, origin_window := Some editor\<rparr>) note_sign)) = [] \<and>
   filter is_run (snd (route_final_text ascii_desk
     (new_engine\<lparr>auto_clipboard := False, auto_type := True, origin_window := Some editor\<rparr>) note_sign)) =
     [Run [''xdotool'', ''windowactivate'', ''--sync'', ''4194311''],
      Run [''xdotool'', ''type'', ''--clearmodifiers'', ''--delay'', ''12'', ''--'', note_sign]]"
proof -
  let ?e = "new_engine\<lparr>auto_clipboard := True, auto_type := True, origin_window := Some editor\<rparr>"
  have v: "valid editor"
    by (simp add: valid_def editor_def)
  have n: "note_sign \<noteq> []"
    by (simp add: note_sign_def)
  have sc: "set_clipboard ascii_desk note_sign =
            (Inl UnicodeEncodeError, [RunInput [''xsel'', ''--clipboard'', ''--input''] note_sign])"
    by (simp add: set_clipboard_def clipboard_commands_def ascii_desk_def laptop_def note_sign_def
          is_SubprocessError_def is_OSError_def)
  have ok: "route_final_text (laptop\<lparr>subprocess_run := (\<lambda>args. Inr (0, ''4194311''))\<rparr>) ?e ''hi'' =
     (Inr (),
      [RunInput [''xsel'', ''--clipboard'', ''--input''] ''hi'',
       Run [''xdotool'', ''windowactivate'', ''--sync'', ''4194311''],
       Run [''xdotool'', ''type'', ''--clearmodifiers'', ''--delay'', ''12'', ''--'', ''hi'']])"
    by (simp add: route_final_text_def set_clipboard_def clipboard_commands_def laptop_def
          new_engine_def editor_def valid_def focus_window_def type_text_def run_cmd_def falsy_def
          str_nat_12)
  have off: "filter is_run (snd (route_final_text ascii_desk
     (new_engine\<lparr>auto_clipboard := False, auto_type := True, origin_window := Some editor\<rparr>) note_sign)) =
     [Run [''xdotool'', ''windowactivate'', ''--sync'', ''4194311''],
      Run [''xdotool'', ''type'', ''--clearmodifiers'', ''--delay'', ''12'', ''--'', note_sign]]"
    using n v
    by (simp add: route_typing_calls new_engine_def focus_window_calls type_text_calls
          focus_window_def run_cmd_def ascii_desk_def laptop_def editor_def falsy_def)
  show ?thesis
    using v n sc ok off
      clipboard_exception_skips_typing[where h = ascii_desk and e = ?e and t = note_sign
        and exc = UnicodeEncodeError]
    by (simp add: new_engine_def)
qed

text \<open>
  Claim C7 does not hold of \<^verbatim>\<open>_route_final_text\<close>: with typing on, a valid captured window
  and a non-empty text, when \<^verbatim>\<open>focus_window\<close> returns \<^verbatim>\<open>False\<close> (and the clipboard block
  before it has not raised) the type command is started all the same, as the last thing the
  routing does, into whatever window has the focus. The sibling
  \<^verbatim>\<open>WindowSnapshot.restore_and_type\<close> on the same window and text stops after the failed
  focus: the routing starts exactly one xdotool process more, the type command.
\<close>

theorem route_types_after_failed_focus:
  "t \<noteq> [] \<and> auto_type e \<and> origin_window e = Some w \<and> valid w \<and>
   fst (focus_window h (window_id w)) = Inr False \<and>
   \<not> (auto_clipboard e \<and> isl (fst (set_clipboard h t))) \<longrightarrow>
     last (snd (route_final_text h e t)) =
       Run [''xdotool'', ''type'', ''--clearmodifiers'', ''--delay'', ''12'', ''--'', t] \<and>
     restore_and_type h w t = (Inr False, snd (focus_window h (window_id w))) \<and>
     filter is_run (snd (restore_and_type h w t)) @
       [Run [''xdotool'', ''type'', ''--clearmodifiers'', ''--delay'', ''12'', ''--'', t]] =
     filter is_run (snd (route_final_text h e t))"
proof (intro impI)
  assume a: "t \<noteq> [] \<and> auto_type e \<and> origin_window e = Some w \<and> valid w \<and>
   fst (focus_window h (window_id w)) = Inr False \<and>
   \<not> (auto_clipboard e \<and> isl (fst (set_clipboard h t)))"
  obtain c where f: "focus_window h (window_id w) = (Inr False, c)"
    using a by (cases "focus_window h (window_id w)") simp
  have r: "restore_and_type h w t = (Inr False, snd (focus_window h (window_id w)))"
    using a f by (simp add: restore_and_type_def)
  have l: "last (snd (route_final_text h e t)) =
       Run [''xdotool'', ''type'', ''--clearmodifiers'', ''--delay'', ''12'', ''--'', t]"
    using a f by (auto simp: route_final_text_calls type_text_calls)
  have c: "filter is_run (snd (focus_window h (window_id w))) = snd (focus_window h (window_id w))"
    by (simp add: focus_window_calls)
  have "filter is_run (snd (restore_and_type h w t)) @
       [Run [''xdotool'', ''type'', ''--clearmodifiers'', ''--delay'', ''12'', ''--'', t]] =
     filter is_run (snd (route_final_text h e t))"
    using a f c by (auto simp: r route_typing_calls type_text_calls)
  with r l show "last (snd (route_final_text h e t)) =
       Run [''xdotool'', ''type'', ''--clearmodifiers'', ''--delay'', ''12'', ''--'', t] \<and>
     restore_and_type h w t = (Inr False, snd (focus_window h (window_id w))) \<and>
     filter is_run (snd (restore_and_type h w t)) @
       [Run [''xdotool'', ''type'', ''--clearmodifiers'', ''--delay'', ''12'', ''--'', t]] =
     filter is_run (snd (route_final_text h e t))"
    by simp
qed

theorem route_types_after_failed_focus_witness:
  "valid editor \<and> fst (focus_window laptop (window_id editor)) = Inr False \<and>
   route_final_text laptop (new_engine\<lparr>auto_type := True, origin_window := Some editor\<rparr>) ''hello'' =
     (Inr (),
      [Run [''xdotool'', ''windowactivate'', ''--sync'', ''4194311''],
       Run [''xdotool'', ''type'', ''--clearmodifiers'', ''--delay'', ''12'', ''--'', ''hello'']]) \<and>
   restore_and_type laptop editor ''hello'' =
     (Inr False, [Run [''xdotool'', ''windowactivate'', ''--sync'', ''4194311'']])"
proof -
  have v: "valid editor"
    by (simp add: valid_def editor_def)
  have f: "focus_window laptop (window_id editor) =
           (Inr False, [Run [''xdotool'', ''windowactivate'', ''--sync'', ''4194311'']])"
    by (simp add: focus_window_def run_cmd_def falsy_def editor_def laptop_def is_OSError_def)
  have r: "route_final_text laptop (new_engine\<lparr>auto_type := True, origin_window := Some editor\<rparr>) ''hello'' =
     (Inr (),
      [Run [''xdotool'', ''windowactivate'', ''--sync'', ''4194311''],
       Run [''xdotool'', ''type'', ''--clearmodifiers'', ''--delay'', ''12'', ''--'', ''hello'']])"
    using v f
    by (simp add: route_final_text_def new_engine_def type_text_def run_cmd_def falsy_def
          laptop_def str_nat_12)
  show ?thesis
    using v f r
      route_types_after_failed_focus[where h = laptop and w = editor and t = "''hello''"
        and e = "new_engine\<lparr>auto_type := True, origin_window := Some editor\<rparr>"]
    by (simp add: new_engine_def)
qed

end
